theory Spec2Isabelle
  imports Main "HOL-Library.Word"
begin

unbundle bit_operations_syntax

section \<open>The C types of main.c\<close>

text \<open>
  The bytecode is a C array of \<open>char\<close>; the dispatch loop reads each byte into an
  \<open>unsigned char\<close>, so a byte is an 8-bit word. A \<open>double\<close> is its IEEE-754 binary64
  bit pattern: bit 63 the sign, bits 62..52 the biased exponent, bits 51..0 the fraction.
  \<open>int\<close> is 32 bits wide (\<open>JMP\<close> copies exactly 4 bytes into \<open>vm->pc\<close>).
\<close>

type_synonym byte = "8 word"
type_synonym double = "64 word"

definition INT_MAX :: int where
  "INT_MAX = 2147483647"

subsection \<open>Reading a double\<close>

definition dsign :: "double \<Rightarrow> bool" where
  "dsign d = (2 ^ 63 \<le> uint d)"

definition dexp :: "double \<Rightarrow> int" where
  "dexp d = (uint d div 2 ^ 52) mod 2048"

definition dfrac :: "double \<Rightarrow> int" where
  "dfrac d = uint d mod 2 ^ 52"

definition isnan :: "double \<Rightarrow> bool" where
  "isnan d = (dexp d = 2047 \<and> dfrac d \<noteq> 0)"

definition isinf :: "double \<Rightarrow> bool" where
  "isinf d = (dexp d = 2047 \<and> dfrac d = 0)"

text \<open>
  A finite double is the dyadic number \<open>dmag d * 2 ^ dpow d\<close>, negated when the sign bit
  is set: subnormals (biased exponent 0) have no hidden bit.
\<close>

definition dmag :: "double \<Rightarrow> int" where
  "dmag d = (if dexp d = 0 then dfrac d else 2 ^ 52 + dfrac d)"

definition dpow :: "double \<Rightarrow> int" where
  "dpow d = (if dexp d = 0 then - 1074 else dexp d - 1075)"

subsection \<open>Rounding to nearest, ties to even\<close>

text \<open>
  \<open>rne_shift m k\<close> is \<open>m / 2 ^ k\<close> rounded to the nearest integer, ties to even
  (for \<open>m\<close> not negative).
\<close>

definition rne_shift :: "int \<Rightarrow> nat \<Rightarrow> int" where
  "rne_shift m k =
     (if k = 0 then m
      else let q = m div 2 ^ k; r = m mod 2 ^ k; h = 2 ^ (k - 1)
           in if h < r \<or> (r = h \<and> odd q) then q + 1 else q)"

text \<open>The number of binary digits of a positive integer.\<close>

function nbits :: "int \<Rightarrow> int" where
  "nbits n = (if n \<le> 0 then 0 else 1 + nbits (n div 2))"
  by pat_completeness auto
termination
  by (relation "measure nat") auto

declare nbits.simps [simp del]

definition dzero :: "bool \<Rightarrow> double" where
  "dzero s = (if s then 0x8000000000000000 else 0)"

definition dinfinity :: "bool \<Rightarrow> double" where
  "dinfinity s = (if s then 0xFFF0000000000000 else 0x7FF0000000000000)"

text \<open>
  A NaN with the quiet bit set (bit 51) and the exponent field all ones; the sign and
  the other bits of the fraction are those of \<open>d\<close>.
\<close>

definition quiet_nan :: "double \<Rightarrow> double" where
  "quiet_nan d = d OR 0x7FF8000000000000"

text \<open>
  \<open>dround s m e\<close> is the double nearest to \<open>m * 2 ^ e\<close> (ties to even), with sign \<open>s\<close>.
  The unit in the last place of the result is \<open>2 ^ u\<close>, never below \<open>2 ^ - 1074\<close>; the
  significand \<open>q\<close> has at most 53 bits before rounding up. The bit pattern is
  \<open>(u + 1074) * 2 ^ 52 + q\<close>: the hidden bit of a normal number adds one to the exponent
  field, and so does a carry out of the rounding. A pattern at or above the exponent
  field 2047 is an overflow to infinity.
\<close>

definition dround :: "bool \<Rightarrow> int \<Rightarrow> int \<Rightarrow> double" where
  "dround s m e =
     (if m = 0 then dzero s
      else let u = max (e + nbits m - 53) (- 1074);
               q = (if e \<le> u then rne_shift m (nat (u - e)) else m * 2 ^ nat (e - u));
               bits = (u + 1074) * 2 ^ 52 + q
           in if 2047 * 2 ^ 52 \<le> bits then dinfinity s
              else dzero s + word_of_int bits)"

subsection \<open>The operators of C on doubles\<close>

text \<open>
  The arithmetic of C on doubles is that of IEEE-754 binary64 in the default rounding
  mode: an operator computes the exact result of two finite operands as a dyadic number
  and rounds it once, to nearest with ties to even. Infinities and signed zeros follow
  the standard. When the result is a NaN (an operand is a NaN, or the operation is
  invalid: \<open>inf - inf\<close>, \<open>0 * inf\<close>, \<open>0 / 0\<close>, \<open>inf / inf\<close>), the standard
  says that it is a quiet NaN and leaves its sign and payload to the platform: they are
  a parameter of the operators, a function of the operator and the two operands.
\<close>

datatype operator = Plus | Minus | Times | Divide

type_synonym nan_rule = "operator \<Rightarrow> double \<Rightarrow> double \<Rightarrow> double"

text \<open>
  The rule of the scalar SSE2 instructions of x86-64 (\<open>addsd\<close>, \<open>subsd\<close>, \<open>mulsd\<close>,
  \<open>divsd\<close>, with \<open>a\<close> the destination operand): the first operand when it is a NaN,
  else the second when it is a NaN, each with its sign and payload and the quiet bit
  set; for an invalid operation on two numbers the default NaN, whose sign bit is set.
\<close>

definition sse2_nan :: nan_rule where
  "sse2_nan op a b = (if isnan a then a else if isnan b then b else 0xFFF8000000000000)"

text \<open>Conversion of an \<open>int\<close> constant (\<open>PUSH(vm, -1)\<close>, \<open>b == 0\<close>) to double.\<close>

definition double_of_int :: "int \<Rightarrow> double" where
  "double_of_int i = dround (i < 0) \<bar>i\<bar> 0"

text \<open>Unary minus flips the sign bit.\<close>

definition fneg :: "double \<Rightarrow> double" where
  "fneg a = a XOR 0x8000000000000000"

text \<open>
  The sum of two doubles, neither a NaN, that are not infinities of opposite signs.
\<close>

definition dsum :: "double \<Rightarrow> double \<Rightarrow> double" where
  "dsum a b =
     (if isinf a then a
      else if isinf b then b
      else if dmag a = 0 \<and> dmag b = 0 then dzero (dsign a \<and> dsign b)
      else if dmag a = 0 then b
      else if dmag b = 0 then a
      else let e = min (dpow a) (dpow b);
               x = dmag a * 2 ^ nat (dpow a - e);
               y = dmag b * 2 ^ nat (dpow b - e);
               m = (if dsign a then - x else x) + (if dsign b then - y else y)
           in if m = 0 then dzero (dsign a \<and> dsign b)
              else dround (m < 0) \<bar>m\<bar> e)"

definition fadd :: "nan_rule \<Rightarrow> double \<Rightarrow> double \<Rightarrow> double" where
  "fadd nan a b =
     (if isnan a \<or> isnan b \<or> (isinf a \<and> isinf b \<and> dsign a \<noteq> dsign b)
      then quiet_nan (nan Plus a b)
      else dsum a b)"

text \<open>
  \<open>a - b\<close> is the sum of \<open>a\<close> and \<open>- b\<close>, except that the NaN of a subtraction is
  chosen from the operands as they are.
\<close>

definition fsub :: "nan_rule \<Rightarrow> double \<Rightarrow> double \<Rightarrow> double" where
  "fsub nan a b =
     (if isnan a \<or> isnan b \<or> (isinf a \<and> isinf b \<and> dsign a = dsign b)
      then quiet_nan (nan Minus a b)
      else dsum a (fneg b))"

definition fmul :: "nan_rule \<Rightarrow> double \<Rightarrow> double \<Rightarrow> double" where
  "fmul nan a b =
     (let s = (dsign a \<noteq> dsign b) in
      if isnan a \<or> isnan b then quiet_nan (nan Times a b)
      else if isinf a \<or> isinf b then
        (if (\<not> isinf a \<and> dmag a = 0) \<or> (\<not> isinf b \<and> dmag b = 0)
         then quiet_nan (nan Times a b)
         else dinfinity s)
      else dround s (dmag a * dmag b) (dpow a + dpow b))"

text \<open>
  The quotient of two finite, non-zero doubles is computed to more than 66 bits, with a
  last bit that says whether the division left a remainder, and then rounded.
\<close>

definition fdiv :: "nan_rule \<Rightarrow> double \<Rightarrow> double \<Rightarrow> double" where
  "fdiv nan a b =
     (let s = (dsign a \<noteq> dsign b) in
      if isnan a \<or> isnan b then quiet_nan (nan Divide a b)
      else if isinf a then (if isinf b then quiet_nan (nan Divide a b) else dinfinity s)
      else if isinf b then dzero s
      else if dmag b = 0 then
        (if dmag a = 0 then quiet_nan (nan Divide a b) else dinfinity s)
      else let n = dmag a * 2 ^ 120;
               q = n div dmag b;
               sticky = (if n mod dmag b = 0 then 0 else 1)
           in dround s (2 * q + sticky) (dpow a - dpow b - 121))"

subsection \<open>The value of a finite double\<close>

text \<open>
  A double is finite when it is neither a NaN nor an infinity (\<open>isfinite\<close> of
  \<open>math.h\<close>). The least positive double is \<open>2 ^ - 1074\<close> and every finite double is a
  whole multiple of it: \<open>dval d\<close> is the value of the finite double \<open>d\<close> in units of
  \<open>2 ^ - 1074\<close>, an integer, and \<open>mval d\<close> its magnitude. In these units the greatest
  finite double is \<open>2 ^ 2098 - 2 ^ 2045\<close>, and \<open>2 ^ 2098 - 2 ^ 2044\<close> is half a unit
  in the last place above it: rounding to nearest gives an infinity from there on.
\<close>

definition isfinite :: "double \<Rightarrow> bool" where
  "isfinite d = (\<not> isnan d \<and> \<not> isinf d)"

definition mval :: "double \<Rightarrow> int" where
  "mval d = dmag d * 2 ^ nat (dpow d + 1074)"

definition dval :: "double \<Rightarrow> int" where
  "dval d = (if dsign d then - 1 else 1) * (dmag d * 2 ^ nat (dpow d + 1074))"

text \<open>
  Comparisons: a NaN is unordered, the two zeros are equal. \<open>dord\<close> maps the doubles
  that are not NaN monotonically to the integers.
\<close>

definition dord :: "double \<Rightarrow> int" where
  "dord d = (if dsign d then - (uint d mod 2 ^ 63) else uint d)"

definition feq :: "double \<Rightarrow> double \<Rightarrow> bool" where
  "feq a b = (\<not> isnan a \<and> \<not> isnan b \<and> dord a = dord b)"

definition flt :: "double \<Rightarrow> double \<Rightarrow> bool" where
  "flt a b = (\<not> isnan a \<and> \<not> isnan b \<and> dord a < dord b)"

definition fle :: "double \<Rightarrow> double \<Rightarrow> bool" where
  "fle a b = (\<not> isnan a \<and> \<not> isnan b \<and> dord a \<le> dord b)"

definition fne :: "double \<Rightarrow> double \<Rightarrow> bool" where
  "fne a b = (\<not> feq a b)"

definition fgt :: "double \<Rightarrow> double \<Rightarrow> bool" where
  "fgt a b = flt b a"

definition fge :: "double \<Rightarrow> double \<Rightarrow> bool" where
  "fge a b = fle b a"

section \<open>printf\<close>

text \<open>
  The program writes to standard output only, with the conversions \<open>%f\<close>, \<open>%d\<close> and
  \<open>%x\<close>. Standard output is a string that grows.
\<close>

definition digit_char :: "int \<Rightarrow> char" where
  "digit_char k = ''0123456789abcdef'' ! nat k"

function digits :: "int \<Rightarrow> int \<Rightarrow> string" where
  "digits b n =
     (if n < b \<or> b < 2 then [digit_char n] else digits b (n div b) @ [digit_char (n mod b)])"
  by pat_completeness auto
termination
  by (relation "measure (\<lambda>(b, n). nat n)") (auto intro: int_div_less_self)

declare digits.simps [simp del]

definition printf_d :: "int \<Rightarrow> string" where
  "printf_d i = (if i < 0 then ''-'' @ digits 10 (- i) else digits 10 i)"

definition printf_x :: "byte \<Rightarrow> string" where
  "printf_x c = digits 16 (uint c)"

text \<open>
  \<open>%f\<close> prints six decimals: the exact value of the double times \<open>10 ^ 6\<close>, rounded to
  the nearest integer (ties to even, the rounding of the C library in the default
  rounding mode), then the integer part, a point and the six decimals. An infinity
  prints as \<open>inf\<close> and a NaN as \<open>nan\<close>, after the sign (\<open>-nan\<close> for a NaN whose
  sign bit is set).
\<close>

definition printf_f :: "double \<Rightarrow> string" where
  "printf_f d =
     (if dsign d then ''-'' else []) @
     (if isnan d then ''nan''
      else if isinf d then ''inf''
      else let n = (if 0 \<le> dpow d then dmag d * 2 ^ nat (dpow d) * 10 ^ 6
                    else rne_shift (dmag d * 10 ^ 6) (nat (- dpow d)))
           in digits 10 (n div 10 ^ 6) @ ''.'' @ tl (digits 10 (10 ^ 6 + n mod 10 ^ 6)))"

definition newline :: string where
  "newline = [CHR 0x0A]"

section \<open>The opcodes\<close>

definition HALT :: byte where "HALT = 0x00"
definition DCONST_M1 :: byte where "DCONST_M1 = 0x0A"
definition DCONST_0 :: byte where "DCONST_0 = 0x0B"
definition DCONST_1 :: byte where "DCONST_1 = 0x0C"
definition DCONST_2 :: byte where "DCONST_2 = 0x0D"
definition DCONST :: byte where "DCONST = 0x0F"
definition JEQ :: byte where "JEQ = 0x10"
definition JNE :: byte where "JNE = 0x11"
definition JLT :: byte where "JLT = 0x12"
definition JLE :: byte where "JLE = 0x13"
definition JGT :: byte where "JGT = 0x14"
definition JGE :: byte where "JGE = 0x15"
definition ADD :: byte where "ADD = 0x60"
definition SUB :: byte where "SUB = 0x61"
definition MUL :: byte where "MUL = 0x62"
definition DIV :: byte where "DIV = 0x64"
definition NEG :: byte where "NEG = 0x70"
definition NOP :: byte where "NOP = 0xF0"
definition PRINT :: byte where "PRINT = 0xF2"
definition ST1 :: byte where "ST1 = 0xF4"
definition LD1 :: byte where "LD1 = 0xF5"
definition ST2 :: byte where "ST2 = 0xF6"
definition LD2 :: byte where "LD2 = 0xF7"

section \<open>The virtual machine\<close>

text \<open>
  The struct \<open>VM\<close>. \<open>code\<close> points to the bytecode array, here the array itself.
  \<open>stack\<close> points to \<open>STACK_SIZE\<close> doubles from \<open>malloc\<close>: a function from the index
  to the slot, of which the indices \<open>0 .. STACK_SIZE - 1\<close> belong to the array. \<open>pc\<close>
  and \<open>sp\<close> are C \<open>int\<close>s.
\<close>

record VM =
  r1 :: double
  r2 :: double
  code :: "byte list"
  stack :: "int \<Rightarrow> double"
  pc :: int
  sp :: int

definition STACK_SIZE :: int where
  "STACK_SIZE = 256"

text \<open>
  \<open>malloc\<close> does not initialise the stack: \<open>newVM\<close> takes what the fresh block holds as
  its second argument.
\<close>

definition newVM :: "byte list \<Rightarrow> (int \<Rightarrow> double) \<Rightarrow> VM" where
  "newVM c mem = \<lparr>r1 = double_of_int 0, r2 = double_of_int 0, code = c, stack = mem,
     pc = 0, sp = - 1\<rparr>"

subsection \<open>What C leaves undefined\<close>

text \<open>
  The macros \<open>PUSH\<close>, \<open>POP\<close> and \<open>NCODE\<close> check nothing. An access outside the stack
  or the bytecode array, and an \<open>int\<close> that overflows, are undefined behaviour in C: the
  model stops there and says which access it was, with the index.
\<close>

datatype undefined_behaviour =
  StackWriteOutOfBounds int
  | StackReadOutOfBounds int
  | CodeReadOutOfBounds int
  | SignedOverflow

definition PUSH :: "VM \<Rightarrow> double \<Rightarrow> undefined_behaviour + VM" where
  "PUSH vm v =
     (let i = sp vm + 1 in
      if 0 \<le> i \<and> i < STACK_SIZE then Inr (vm\<lparr>sp := i, stack := (stack vm)(i := v)\<rparr>)
      else Inl (StackWriteOutOfBounds i))"

definition POP :: "VM \<Rightarrow> undefined_behaviour + double \<times> VM" where
  "POP vm =
     (let i = sp vm in
      if 0 \<le> i \<and> i < STACK_SIZE then Inr (stack vm i, vm\<lparr>sp := i - 1\<rparr>)
      else Inl (StackReadOutOfBounds i))"

definition NCODE :: "VM \<Rightarrow> undefined_behaviour + byte \<times> VM" where
  "NCODE vm =
     (let i = pc vm in
      if 0 \<le> i \<and> i < int (length (code vm)) then
        (if i < INT_MAX then Inr (code vm ! nat i, vm\<lparr>pc := i + 1\<rparr>) else Inl SignedOverflow)
      else Inl (CodeReadOutOfBounds i))"

text \<open>
  \<open>memcpy(dest, vm->code + vm->pc, n)\<close>: the \<open>n\<close> bytes copied. A copy that leaves the
  array is undefined, at the first offset outside it.
\<close>

definition memcpy_code :: "VM \<Rightarrow> nat \<Rightarrow> undefined_behaviour + byte list" where
  "memcpy_code vm n =
     (let i = pc vm in
      if 0 \<le> i \<and> i + int n \<le> int (length (code vm)) then Inr (take n (drop (nat i) (code vm)))
      else Inl (CodeReadOutOfBounds (if 0 \<le> i then max i (int (length (code vm))) else i)))"

subsection \<open>Byte order\<close>

definition swap :: "byte list \<Rightarrow> nat \<Rightarrow> nat \<Rightarrow> byte list" where
  "swap p a b = (let temp = p ! a in (p[a := p ! b])[b := temp])"

definition convertToLittleEndian :: "byte list \<Rightarrow> nat \<Rightarrow> byte list" where
  "convertToLittleEndian p sz = fold (\<lambda>i p. swap p i (sz - i - 1)) [0..<sz div 2] p"

text \<open>
  The value of an \<open>int\<close> or a \<open>double\<close> whose bytes in memory are \<open>bs\<close>, first byte at
  the lowest address: on a little-endian host the first byte is the least significant.
\<close>

definition object_value :: "bool \<Rightarrow> byte list \<Rightarrow> 'a::len word" where
  "object_value little bs =
     (if little then foldr (\<lambda>b w. w * 256 + ucast b) bs 0
      else foldl (\<lambda>w b. w * 256 + ucast b) 0 bs)"

section \<open>The dispatch loop\<close>

text \<open>
  One turn of the loop of \<open>run\<close> either reaches its \<open>break\<close>, returns from \<open>run\<close>, or
  is undefined. The string is what the turn printed.
\<close>

datatype flow =
  Break VM string
  | Return exit_status VM string
  | Undefined undefined_behaviour
and exit_status = EXIT_SUCCESS | EXIT_FAILURE

definition and_then :: "undefined_behaviour + 'a \<Rightarrow> ('a \<Rightarrow> flow) \<Rightarrow> flow" where
  "and_then m f = (case m of Inl u \<Rightarrow> Undefined u | Inr x \<Rightarrow> f x)"

text \<open>
  \<open>main.c\<close> tests the macro \<open>LITTLE_ENDIAN\<close> in two \<open>#if\<close> and defines it nowhere:
  what it is comes from the three headers and the options of the compiler, and a macro
  that is not defined counts as 0 in \<open>#if\<close>. Nothing ties it to the byte order of
  the host, in which \<open>memcpy\<close> into an \<open>int\<close> or a \<open>double\<close> reads the bytes. A build
  of the program is therefore three things: whether the macro is defined and not 0,
  whether the host is little-endian, and the NaN rule of its arithmetic.
\<close>

record build =
  LITTLE_ENDIAN :: bool
  little_endian_host :: bool
  nan_result :: nan_rule

text \<open>A build in which the macro says what the host is.\<close>

definition host_build :: "bool \<Rightarrow> nan_rule \<Rightarrow> build" where
  "host_build little nan =
     \<lparr>LITTLE_ENDIAN = little, little_endian_host = little, nan_result = nan\<rparr>"

text \<open>
  Two builds for x86-64, a little-endian host: one with the macro defined and not 0,
  and one with the macro not defined.
\<close>

definition x86_64 :: build where
  "x86_64 = host_build True sse2_nan"

definition x86_64_no_macro :: build where
  "x86_64_no_macro =
     \<lparr>LITTLE_ENDIAN = False, little_endian_host = True, nan_result = sse2_nan\<rparr>"

definition JMP :: "build \<Rightarrow> VM \<Rightarrow> flow" where
  "JMP bld vm =
     and_then (memcpy_code vm 4) (\<lambda>bs.
       let bs = (if LITTLE_ENDIAN bld then convertToLittleEndian bs 4 else bs)
       in Break (vm\<lparr>pc := sint (object_value (little_endian_host bld) bs :: 32 word)\<rparr>) [])"

text \<open>
  The operand of \<open>DCONST\<close>: \<open>memcpy\<close> of 8 bytes into \<open>v\<close>, \<open>vm->pc += 8\<close>, and the
  conversion under \<open>#if LITTLE_ENDIAN\<close>.
\<close>

definition read_double :: "build \<Rightarrow> VM \<Rightarrow> undefined_behaviour + double \<times> VM" where
  "read_double bld vm =
     (case memcpy_code vm 8 of
        Inl u \<Rightarrow> Inl u
      | Inr bs \<Rightarrow>
          if INT_MAX - 8 < pc vm then Inl SignedOverflow
          else let vm' = vm\<lparr>pc := pc vm + 8\<rparr>;
                   bs = (if LITTLE_ENDIAN bld then convertToLittleEndian bs 8 else bs)
               in Inr (object_value (little_endian_host bld) bs, vm'))"

definition push_break :: "VM \<Rightarrow> double \<Rightarrow> flow" where
  "push_break vm v = and_then (PUSH vm v) (\<lambda>vm. Break vm [])"

definition step :: "build \<Rightarrow> VM \<Rightarrow> flow" where
  "step bld vm0 =
     and_then (NCODE vm0) (\<lambda>(opcode, vm).
       if opcode = HALT then Return EXIT_SUCCESS vm []
       else if opcode = NOP then Break vm []
       else if opcode = DCONST_M1 then push_break vm (double_of_int (- 1))
       else if opcode = DCONST_0 then push_break vm (double_of_int 0)
       else if opcode = DCONST_1 then push_break vm (double_of_int 1)
       else if opcode = DCONST_2 then push_break vm (double_of_int 2)
       else if opcode = DCONST then
         and_then (read_double bld vm) (\<lambda>(v, vm). push_break vm v)
       else if opcode = JEQ then (if feq (r1 vm) (r2 vm) then JMP bld vm else Break vm [])
       else if opcode = JNE then (if fne (r1 vm) (r2 vm) then JMP bld vm else Break vm [])
       else if opcode = JLT then (if flt (r1 vm) (r2 vm) then JMP bld vm else Break vm [])
       else if opcode = JLE then (if fle (r1 vm) (r2 vm) then JMP bld vm else Break vm [])
       else if opcode = JGT then (if fgt (r1 vm) (r2 vm) then JMP bld vm else Break vm [])
       else if opcode = JGE then (if fge (r1 vm) (r2 vm) then JMP bld vm else Break vm [])
       else if opcode = ADD then
         and_then (POP vm) (\<lambda>(b, vm). and_then (POP vm) (\<lambda>(a, vm).
           push_break vm (fadd (nan_result bld) a b)))
       else if opcode = MUL then
         and_then (POP vm) (\<lambda>(b, vm). and_then (POP vm) (\<lambda>(a, vm).
           push_break vm (fmul (nan_result bld) a b)))
       else if opcode = SUB then
         and_then (POP vm) (\<lambda>(b, vm). and_then (POP vm) (\<lambda>(a, vm).
           push_break vm (fsub (nan_result bld) a b)))
       else if opcode = DIV then
         and_then (POP vm) (\<lambda>(b, vm). and_then (POP vm) (\<lambda>(a, vm).
           if feq b (double_of_int 0) then
             Return EXIT_FAILURE vm
               (''RuntimeException: Division by zero @ PC = '' @ printf_d (pc vm) @ newline)
           else push_break vm (fdiv (nan_result bld) a b)))
       else if opcode = NEG then and_then (POP vm) (\<lambda>(v, vm). push_break vm (fneg v))
       else if opcode = LD1 then push_break vm (r1 vm)
       else if opcode = ST1 then and_then (POP vm) (\<lambda>(v, vm). Break (vm\<lparr>r1 := v\<rparr>) [])
       else if opcode = LD2 then push_break vm (r2 vm)
       else if opcode = ST2 then and_then (POP vm) (\<lambda>(v, vm). Break (vm\<lparr>r2 := v\<rparr>) [])
       else if opcode = PRINT then
         and_then (POP vm) (\<lambda>(v, vm). Break vm (printf_f v @ newline))
       else Return EXIT_FAILURE vm (''InvalidOpcodeError: '' @ printf_x opcode @ newline))"

text \<open>
  \<open>for (;;)\<close>: the loop may run forever, and then \<open>run\<close> has no result. A result is the
  exit status with the machine and the standard output at the return, or the undefined
  behaviour the run ran into.
\<close>

datatype outcome =
  Exited exit_status VM string
  | UndefinedBehaviour undefined_behaviour

partial_function (option) run_loop :: "build \<Rightarrow> VM \<Rightarrow> string \<Rightarrow> outcome option" where
  "run_loop bld vm out =
     (case step bld vm of
        Break vm' s \<Rightarrow> run_loop bld vm' (out @ s)
      | Return status vm' s \<Rightarrow> Some (Exited status vm' (out @ s))
      | Undefined u \<Rightarrow> Some (UndefinedBehaviour u))"

definition run :: "build \<Rightarrow> VM \<Rightarrow> outcome option" where
  "run bld vm = run_loop bld vm []"

subsection \<open>The programs of main\<close>

definition bytecode :: "byte list" where
  "bytecode = [DCONST_2, DCONST_1, SUB, PRINT, HALT]"

definition readmebytecode :: "byte list" where
  "readmebytecode =
     [DCONST, 0x40, 0x29, 0x14, 0x7A, 0xE1, 0x47, 0xAE, 0x14, PRINT, HALT]"



subsection \<open>Bounded runs and observations\<close>

text \<open>
  \<open>turns n\<close> is the first \<open>n\<close> turns of the loop, with the output so far: it stops early
  at a \<open>return\<close> or at undefined behaviour.
\<close>

fun turns :: "nat \<Rightarrow> build \<Rightarrow> VM \<Rightarrow> string \<Rightarrow> flow" where
  "turns 0 bld vm out = Break vm out"
| "turns (Suc n) bld vm out =
     (case step bld vm of
        Break vm' s \<Rightarrow> turns n bld vm' (out @ s)
      | Return status vm' s \<Rightarrow> Return status vm' (out @ s)
      | Undefined u \<Rightarrow> Undefined u)"


subsection \<open>Further programs\<close>

text \<open>A division by zero, and a byte that is no opcode.\<close>

definition scenario3 :: "byte list" where
  "scenario3 = [DCONST_1, DCONST_0, DIV, PRINT, HALT]"

definition scenario4 :: "byte list" where
  "scenario4 = [0xFF, HALT]"

text \<open>A malloc block that happens to hold zeros.\<close>

definition zero_block :: "int \<Rightarrow> double" where
  "zero_block i = 0"

subsection \<open>Comparing two runs\<close>


text \<open>
  Two machines are alike when they differ at most in the stack slots above the stack
  pointer, which hold no value of the program: what \<open>malloc\<close> left there, or a value
  popped before.
\<close>

definition alike :: "VM \<Rightarrow> VM \<Rightarrow> bool" where
  "alike a b \<longleftrightarrow>
     r1 a = r1 b \<and> r2 a = r2 b \<and> code a = code b \<and> pc a = pc b \<and> sp a = sp b \<and>
     (\<forall>i. 0 \<le> i \<and> i \<le> sp a \<longrightarrow> stack a i = stack b i)"


section \<open>Lemmas for evaluating the machine\<close>

lemmas opcode_defs =
  HALT_def DCONST_M1_def DCONST_0_def DCONST_1_def DCONST_2_def DCONST_def
  JEQ_def JNE_def JLT_def JLE_def JGT_def JGE_def
  ADD_def SUB_def MUL_def DIV_def NEG_def NOP_def PRINT_def
  ST1_def LD1_def ST2_def LD2_def

lemmas vm_defs =
  step_def and_then_def push_break_def NCODE_def PUSH_def POP_def memcpy_code_def
  JMP_def read_double_def STACK_SIZE_def INT_MAX_def Let_def

lemma turns_numeral:
  "turns (numeral k) bld vm out =
     (case step bld vm of
        Break vm' s \<Rightarrow> turns (pred_numeral k) bld vm' (out @ s)
      | Return status vm' s \<Rightarrow> Return status vm' (out @ s)
      | Undefined u \<Rightarrow> Undefined u)"
  by (simp add: numeral_eq_Suc)

lemma turns_1:
  "turns 1 bld vm out =
     (case step bld vm of
        Break vm' s \<Rightarrow> Break vm' (out @ s)
      | Return status vm' s \<Rightarrow> Return status vm' (out @ s)
      | Undefined u \<Rightarrow> Undefined u)"
  by (simp split: flow.splits)

lemma run_loop_turns:
  "run_loop bld vm out =
     (case turns n bld vm out of
        Break vm' out' \<Rightarrow> run_loop bld vm' out'
      | Return status vm' out' \<Rightarrow> Some (Exited status vm' out')
      | Undefined u \<Rightarrow> Some (UndefinedBehaviour u))"
proof (induction n arbitrary: vm out)
  case 0
  show ?case by simp
next
  case (Suc n)
  show ?case
    by (subst run_loop.simps) (simp add: Suc.IH split: flow.splits)
qed

lemma run_loop_Break:
  "turns n bld vm out = Break vm' out' \<Longrightarrow> run_loop bld vm out = run_loop bld vm' out'"
  using run_loop_turns [of bld vm out n] by simp

lemma run_loop_Return:
  "turns n bld vm out = Return status vm' out' \<Longrightarrow>
     run_loop bld vm out = Some (Exited status vm' out')"
  using run_loop_turns [of bld vm out n] by simp

lemma run_loop_Undefined:
  "turns n bld vm out = Undefined u \<Longrightarrow> run_loop bld vm out = Some (UndefinedBehaviour u)"
  using run_loop_turns [of bld vm out n] by simp

lemma NCODE_Inr:
  "NCODE vm = Inr (opcode, vm') \<Longrightarrow>
     vm' = vm\<lparr>pc := pc vm + 1\<rparr> \<and> 0 \<le> pc vm \<and> pc vm < int (length (code vm)) \<and>
     pc vm < INT_MAX \<and> opcode = code vm ! nat (pc vm)"
  by (auto simp: NCODE_def Let_def split: if_splits)

subsection \<open>Byte order\<close>

lemma upt_2: "[0..<2] = [0, 1]"
  by (simp add: eval_nat_numeral)

lemma upt_4: "[0..<4] = [0, 1, 2, 3]"
  by (simp add: eval_nat_numeral)

lemma convert4: "convertToLittleEndian [a, b, c, d] 4 = [d, c, b, a]"
  by (simp add: convertToLittleEndian_def swap_def upt_2)

lemma convert8:
  "convertToLittleEndian [a, b, c, d, e, f, g, h] 8 = [h, g, f, e, d, c, b, a]"
  by (simp add: convertToLittleEndian_def swap_def upt_4)

lemma object_value_rev: "object_value True (rev bs) = object_value False bs"
  by (simp add: object_value_def foldr_conv_foldl)

lemma length4: "length bs = 4 \<Longrightarrow> \<exists>a b c d. bs = [a, b, c, d]"
  by (auto simp: length_Suc_conv eval_nat_numeral)

lemma length8: "length bs = 8 \<Longrightarrow> \<exists>a b c d e f g h. bs = [a, b, c, d, e, f, g, h]"
  by (auto simp: length_Suc_conv eval_nat_numeral)

text \<open>
  When the bytes are swapped exactly on a little-endian host, they are read most
  significant first on either host: the little-endian host reverses them before it
  reads them least significant first.
\<close>

lemma wire_order4:
  assumes "length bs = 4"
  shows "object_value little (if little then convertToLittleEndian bs 4 else bs) =
    object_value False bs"
proof -
  obtain a b c d where "bs = [a, b, c, d]"
    using length4 [OF assms] by blast
  then have "convertToLittleEndian bs 4 = rev bs"
    by (simp add: convert4)
  then show ?thesis
    by (simp add: object_value_rev)
qed

lemma wire_order8:
  assumes "length bs = 8"
  shows "object_value little (if little then convertToLittleEndian bs 8 else bs) =
    object_value False bs"
proof -
  obtain a b c d e f g h where "bs = [a, b, c, d, e, f, g, h]"
    using length8 [OF assms] by blast
  then have "convertToLittleEndian bs 8 = rev bs"
    by (simp add: convert8)
  then show ?thesis
    by (simp add: object_value_rev)
qed

lemma length_memcpy_code: "memcpy_code vm n = Inr bs \<Longrightarrow> length bs = n"
  by (auto simp: memcpy_code_def Let_def split: if_splits)

text \<open>
  In a build in which the macro says what the host is, a jump target and a double
  constant are read most significant byte first.
\<close>

lemma JMP_wire:
  assumes "LITTLE_ENDIAN bld = little_endian_host bld"
  shows "JMP bld vm =
    and_then (memcpy_code vm 4) (\<lambda>bs.
      Break (vm\<lparr>pc := sint (object_value False bs :: 32 word)\<rparr>) [])"
  using assms
  by (cases "memcpy_code vm 4")
    (simp_all add: JMP_def and_then_def Let_def wire_order4 length_memcpy_code)

lemma read_double_wire:
  assumes "LITTLE_ENDIAN bld = little_endian_host bld"
  shows "read_double bld vm =
    (case memcpy_code vm 8 of
       Inl u \<Rightarrow> Inl u
     | Inr bs \<Rightarrow>
         if INT_MAX - 8 < pc vm then Inl SignedOverflow
         else Inr (object_value False bs, vm\<lparr>pc := pc vm + 8\<rparr>))"
  using assms
  by (cases "memcpy_code vm 8")
    (simp_all add: read_double_def Let_def wire_order8 length_memcpy_code)



text \<open>
  In a build in which the macro says the opposite, a double constant is read least
  significant byte first.
\<close>

lemma reversed_order8:
  assumes "length bs = 8" "macro \<noteq> little"
  shows "object_value little (if macro then convertToLittleEndian bs 8 else bs) =
    object_value True bs"
proof -
  obtain a b c d e f g h where "bs = [a, b, c, d, e, f, g, h]"
    using length8 [OF assms(1)] by blast
  then have "convertToLittleEndian bs 8 = rev bs"
    by (simp add: convert8)
  then show ?thesis
    using assms(2) object_value_rev [of "rev bs", where 'a = 'a] by (cases little) auto
qed

lemma read_double_reversed:
  assumes "LITTLE_ENDIAN bld \<noteq> little_endian_host bld"
  shows "read_double bld vm =
    (case memcpy_code vm 8 of
       Inl u \<Rightarrow> Inl u
     | Inr bs \<Rightarrow>
         if INT_MAX - 8 < pc vm then Inl SignedOverflow
         else Inr (object_value True bs, vm\<lparr>pc := pc vm + 8\<rparr>))"
  using assms
  by (cases "memcpy_code vm 8")
    (simp_all add: read_double_def Let_def reversed_order8 length_memcpy_code)

lemma host_build_simps:
  "LITTLE_ENDIAN (host_build little nan) = little"
  "little_endian_host (host_build little nan) = little"
  "nan_result (host_build little nan) = nan"
  by (simp_all add: host_build_def)

subsection \<open>Arithmetic on the constants of the sample programs\<close>

lemma double_of_int_0: "double_of_int 0 = 0"
  by code_simp

lemma fsub_2_1: "fsub nan (double_of_int 2) (double_of_int 1) = double_of_int 1"
  by code_simp


lemma printf_f_1: "printf_f (double_of_int 1) = ''1.000000''"
  by code_simp

lemma feq_0_0: "feq (double_of_int 0) (double_of_int 0)"
  by code_simp

lemma not_feq_1_0: "\<not> feq (double_of_int 1) (double_of_int 0)"
  by code_simp

section \<open>The arithmetic of doubles\<close>

subsection \<open>Rounding a quotient by a power of two\<close>

lemma divmod_int:
  fixes m B :: int
  assumes "0 < B"
  shows "m = (m div B) * B + m mod B" "0 \<le> m mod B" "m mod B < B"
  using assms by simp_all

lemma div_less_of_less_mult:
  fixes m B c :: int
  assumes "0 < B" "m < c * B"
  shows "m div B < c"
proof (rule ccontr)
  assume "\<not> m div B < c"
  then have "c * B \<le> (m div B) * B"
    using assms(1) by (intro mult_right_mono) simp_all
  then show False
    using divmod_int [OF assms(1), of m] assms(2) by linarith
qed

lemma le_div_of_mult_le:
  fixes m B c :: int
  assumes "0 < B" "c * B \<le> m"
  shows "c \<le> m div B"
proof (rule ccontr)
  assume "\<not> c \<le> m div B"
  then have "(m div B + 1) * B \<le> c * B"
    using assms(1) by (intro mult_right_mono) simp_all
  moreover have "(m div B + 1) * B = (m div B) * B + B"
    by (simp add: algebra_simps)
  ultimately show False
    using divmod_int [OF assms(1), of m] assms(2) by linarith
qed

text \<open>\<open>rne_shift m k\<close> is an integer nearest to \<open>m / 2 ^ k\<close>.\<close>

lemma rne_shift_cases:
  assumes "0 < k"
  shows "(rne_shift m k = m div 2 ^ k \<and> 2 * (m mod 2 ^ k) \<le> 2 ^ k) \<or>
         (rne_shift m k = m div 2 ^ k + 1 \<and> 2 ^ k \<le> 2 * (m mod 2 ^ k))"
proof -
  obtain k' where k: "k = Suc k'"
    using assms by (cases k) simp_all
  show ?thesis
    by (auto simp: rne_shift_def Let_def k)
qed

lemma rne_shift_nearest:
  "\<bar>rne_shift m k * 2 ^ k - m\<bar> \<le> \<bar>j * 2 ^ k - m\<bar>"
proof (cases "k = 0")
  case True
  then show ?thesis
    by (simp add: rne_shift_def)
next
  case False
  define B :: int where "B = 2 ^ k"
  define f where "f = m div B"
  define r where "r = m mod B"
  have B: "0 < B"
    by (simp add: B_def)
  have m: "m = f * B + r" "0 \<le> r" "r < B"
    using divmod_int [OF B, of m] by (simp_all add: f_def r_def)
  have lo: "r \<le> \<bar>j * B - m\<bar>" if "j \<le> f"
  proof -
    have "j * B \<le> f * B"
      using that B by (intro mult_right_mono) simp_all
    then show ?thesis
      using m by linarith
  qed
  have hi: "B - r \<le> \<bar>j * B - m\<bar>" if "f + 1 \<le> j"
  proof -
    have "(f + 1) * B \<le> j * B"
      using that B by (intro mult_right_mono) simp_all
    moreover have "(f + 1) * B = f * B + B"
      by (simp add: algebra_simps)
    ultimately show ?thesis
      using m by linarith
  qed
  have q: "(rne_shift m k = f \<and> 2 * r \<le> B) \<or> (rne_shift m k = f + 1 \<and> B \<le> 2 * r)"
    using rne_shift_cases [of k m] False by (simp add: B_def f_def r_def)
  have "\<bar>rne_shift m k * B - m\<bar> \<le> \<bar>j * B - m\<bar>"
  proof (cases "j \<le> f")
    case True
    from q lo [OF True] m show ?thesis
      by (auto simp: algebra_simps)
  next
    case False
    then have "f + 1 \<le> j" by simp
    from q hi [OF this] m show ?thesis
      by (auto simp: algebra_simps)
  qed
  then show ?thesis
    by (simp add: B_def)
qed

lemma rne_shift_upper:
  assumes "m < c * 2 ^ k"
  shows "rne_shift m k \<le> c"
proof (cases "k = 0")
  case True
  then show ?thesis
    using assms by (simp add: rne_shift_def)
next
  case False
  have "m div 2 ^ k < c"
    using assms by (intro div_less_of_less_mult) simp_all
  then show ?thesis
    using rne_shift_cases [of k m] False by auto
qed

lemma rne_shift_lower:
  assumes "c * 2 ^ k \<le> m"
  shows "c \<le> rne_shift m k"
proof (cases "k = 0")
  case True
  then show ?thesis
    using assms by (simp add: rne_shift_def)
next
  case False
  have "c \<le> m div 2 ^ k"
    using assms by (intro le_div_of_mult_le) simp_all
  then show ?thesis
    using rne_shift_cases [of k m] False by auto
qed

text \<open>A positive integer has \<open>nbits\<close> binary digits.\<close>

lemma nbits_bounds:
  "0 < n \<Longrightarrow> 1 \<le> nbits n \<and> 2 ^ nat (nbits n - 1) \<le> n \<and> n < 2 ^ nat (nbits n)"
proof (induction n rule: nbits.induct)
  case (1 n)
  show ?case
  proof (cases "n div 2 = 0")
    case True
    then have "n = 1"
      using "1.prems" by presburger
    then show ?thesis
      by (simp add: nbits.simps [of 1] nbits.simps [of 0])
  next
    case False
    then have pos: "0 < n div 2"
      using "1.prems" by presburger
    define b where "b = nbits (n div 2)"
    have IH: "1 \<le> b" "2 ^ nat (b - 1) \<le> n div 2" "n div 2 < 2 ^ nat b"
      using "1.IH" pos "1.prems" by (simp_all add: b_def)
    have n: "nbits n = b + 1"
      using "1.prems" by (simp add: nbits.simps [of n] b_def)
    have p: "(2::int) ^ nat b = 2 * 2 ^ nat (b - 1)"
      using IH(1) by (simp add: power_Suc [symmetric] Suc_nat_eq_nat_zadd1 del: power_Suc)
    have p': "(2::int) ^ nat (b + 1) = 2 * 2 ^ nat b"
      using IH(1) by (simp add: nat_add_distrib)
    have "2 * (n div 2) \<le> n" "n < 2 * (n div 2) + 2"
      by presburger+
    then show ?thesis
      using IH n p p' by simp
  qed
qed

subsection \<open>The fields of a double\<close>

lemma dexp_range: "0 \<le> dexp d" "dexp d < 2048"
  by (simp_all add: dexp_def)

lemma dfrac_range: "0 \<le> dfrac d" "dfrac d < 2 ^ 52"
  by (simp_all add: dfrac_def)

lemma isfinite_iff: "isfinite d \<longleftrightarrow> dexp d < 2047"
  using dexp_range [of d] by (auto simp: isfinite_def isnan_def isinf_def)

lemma dmag_range: "0 \<le> dmag d" "dmag d < 2 ^ 53"
  using dfrac_range [of d] by (simp_all add: dmag_def)

lemma dpow_range: "- 1074 \<le> dpow d" "dpow d \<le> 972"
  using dexp_range [of d] by (simp_all add: dpow_def)

lemma dpow_finite: "isfinite d \<Longrightarrow> dpow d \<le> 971"
  by (simp add: isfinite_iff dpow_def)

text \<open>The fields of a pattern put together from a sign and the 63 other bits.\<close>

lemma field_shift:
  fixes x P :: int
  shows "(x + 2048 * P) div P mod 2048 = x div P mod 2048" "(x + 2048 * P) mod P = x mod P"
  by (cases "P = 0"; simp)+

lemma uint_make:
  assumes "0 \<le> x" "x < 2 ^ 63"
  shows "uint (dzero s + word_of_int x :: double) = (if s then 2 ^ 63 else 0) + x"
proof -
  have "uint (word_of_int x :: double) = x"
    using assms by (simp add: uint_word_of_int take_bit_int_eq_self)
  moreover have "uint (dzero s) = (if s then 2 ^ 63 else 0)"
    by (simp add: dzero_def)
  ultimately show ?thesis
    using assms by (simp add: uint_word_ariths)
qed

lemma make_fields:
  assumes "0 \<le> x" "x < 2047 * 2 ^ 52"
  shows "dsign (dzero s + word_of_int x) = s"
    and "dexp (dzero s + word_of_int x) = x div 2 ^ 52"
    and "dfrac (dzero s + word_of_int x) = x mod 2 ^ 52"
proof -
  have x: "x < 2 ^ 63"
    using assms(2) by simp
  note u = uint_make [OF assms(1) x, of s]
  have e: "0 \<le> x div 2 ^ 52" "x div 2 ^ 52 < 2047"
    using assms by (simp_all add: div_less_of_less_mult pos_imp_zdiv_nonneg_iff)
  have p: "(2::int) ^ 63 = 2048 * 2 ^ 52"
    by simp
  show "dsign (dzero s + word_of_int x) = s"
    using x assms(1) by (simp add: dsign_def u)
  show "dexp (dzero s + word_of_int x) = x div 2 ^ 52"
    unfolding dexp_def u
    using e field_shift(1) [of x "2 ^ 52"] by (cases s) (simp_all only: p if_True if_False add_0 add.commute [of "2048 * 2 ^ 52"], simp_all)
  show "dfrac (dzero s + word_of_int x) = x mod 2 ^ 52"
    unfolding dfrac_def u
    using field_shift(2) [of x "2 ^ 52"] by (cases s) (simp_all only: p if_True if_False add_0 add.commute [of "2048 * 2 ^ 52"])
qed

lemma divmod_unique:
  fixes x P c r :: int
  assumes "x = c * P + r" "0 \<le> r" "r < P"
  shows "x div P = c" "x mod P = r"
  using assms int_div_pos_eq [of x P c r] int_mod_pos_eq [of x P c r]
  by (simp_all add: mult.commute)

lemma make_value:
  fixes U :: nat and s :: bool
  assumes "0 \<le> q" "q \<le> 2 ^ 53" "U = 0 \<or> 2 ^ 52 \<le> q"
    and "int U * 2 ^ 52 + q < 2047 * 2 ^ 52"
  defines "w \<equiv> dzero s + word_of_int (int U * 2 ^ 52 + q)"
  shows "isfinite w" "dsign w = s" "mval w = q * 2 ^ U"
proof -
  define P :: int where "P = 2 ^ 52"
  define x where "x = int U * P + q"
  have P: "0 < P" "(2::int) ^ 53 = 2 * P"
    by (simp_all add: P_def)
  have x: "0 \<le> x" "x < 2047 * P"
    using assms(1,4) P by (simp_all add: x_def P_def)
  have f: "dsign w = s" "dexp w = x div P" "dfrac w = x mod P"
    using make_fields [of x s] x unfolding w_def x_def P_def by simp_all
  have fin: "x div P < 2047"
    using x P by (intro div_less_of_less_mult) simp_all
  then show "isfinite w"
    by (simp add: isfinite_iff f)
  show "dsign w = s"
    by (rule f)
  consider (sub) "q < P" | (norm) "P \<le> q" "q < 2 * P" | (carry) "q = 2 * P"
    using assms(2) P by linarith
  then show "mval w = q * 2 ^ U"
  proof cases
    case sub
    then have U: "U = 0"
      using assms(3) by (simp add: P_def)
    have "x div P = 0" "x mod P = q"
      using divmod_unique [of x 0 P q] sub assms(1) U by (simp_all add: x_def)
    then show ?thesis
      using U by (simp add: mval_def dmag_def dpow_def f)
  next
    case norm
    have "x = (int U + 1) * P + (q - P)"
      by (simp add: x_def algebra_simps)
    then have "x div P = int U + 1" "x mod P = q - P"
      using divmod_unique [of x "int U + 1" P "q - P"] norm by simp_all
    then show ?thesis
      by (simp add: mval_def dmag_def dpow_def f P_def)
  next
    case carry
    have "x = (int U + 2) * P + 0"
      by (simp add: x_def carry algebra_simps)
    then have "x div P = int U + 2" "x mod P = 0"
      using divmod_unique [of x "int U + 2" P 0] P by simp_all
    moreover have "nat (int U + 2 - 1075 + 1074) = Suc U"
      by simp
    ultimately show ?thesis
      by (simp add: mval_def dmag_def dpow_def f carry) (simp add: P_def)
  qed
qed

subsection \<open>Rounding to a double\<close>

lemma pow_nat_add:
  fixes a b :: int
  assumes "0 \<le> a" "0 \<le> b"
  shows "(2::int) ^ nat (a + b) = 2 ^ nat a * 2 ^ nat b"
  using assms by (simp add: nat_add_distrib power_add)

lemma significand_bounds:
  fixes m e :: int
  assumes "0 < m"
  defines "u \<equiv> max (e + nbits m - 53) (- 1074)"
  defines "q \<equiv> (if e \<le> u then rne_shift m (nat (u - e)) else m * 2 ^ nat (e - u))"
  shows "0 \<le> q" "q \<le> 2 ^ 53" "u = - 1074 \<or> 2 ^ 52 \<le> q"
    and "e \<le> u \<Longrightarrow> - 1074 < u \<Longrightarrow> 2 ^ 52 * 2 ^ nat (u - e) \<le> m"
proof -
  define n where "n = nbits m"
  have n: "1 \<le> n" "2 ^ nat (n - 1) \<le> m" "m < 2 ^ nat n"
    using nbits_bounds [OF assms(1)] by (simp_all add: n_def)
  have u: "e + n - 53 \<le> u" "- 1074 \<le> u" "u = - 1074 \<or> u = e + n - 53"
    by (auto simp: u_def n_def)
  show "0 \<le> q"
  proof (cases "e \<le> u")
    case True
    have "0 * 2 ^ nat (u - e) \<le> m"
      using assms(1) by simp
    then have "0 \<le> rne_shift m (nat (u - e))"
      by (rule rne_shift_lower)
    then show ?thesis
      using True by (simp add: q_def)
  next
    case False
    then show ?thesis
      using assms(1) by (simp add: q_def)
  qed
  show "q \<le> 2 ^ 53"
  proof (cases "e \<le> u")
    case True
    have "nat n \<le> 53 + nat (u - e)"
      using u(1) True by linarith
    then have "(2::int) ^ nat n \<le> 2 ^ (53 + nat (u - e))"
      by (intro power_increasing) simp_all
    then have "m < 2 ^ 53 * 2 ^ nat (u - e)"
      using n(3) by (simp only: power_add)
    then have "rne_shift m (nat (u - e)) \<le> 2 ^ 53"
      by (rule rne_shift_upper)
    then show ?thesis
      using True by (simp add: q_def)
  next
    case False
    have "nat n + nat (e - u) \<le> 53"
      using u(1) False n(1) by linarith
    then have "(2::int) ^ (nat n + nat (e - u)) \<le> 2 ^ 53"
      by (intro power_increasing) simp_all
    moreover have "m * 2 ^ nat (e - u) \<le> 2 ^ nat n * 2 ^ nat (e - u)"
      using n(3) by (intro mult_right_mono) simp_all
    ultimately have "m * 2 ^ nat (e - u) \<le> 2 ^ 53"
      by (simp only: power_add)
    then show ?thesis
      using False by (simp add: q_def)
  qed
  have big: "2 ^ 52 * 2 ^ nat (u - e) \<le> m" if "e \<le> u" "- 1074 < u"
  proof -
    have "u = e + n - 53"
      using u(3) that(2) by simp
    then have "nat (n - 1) = 52 + nat (u - e)"
      using that(1) by linarith
    then show ?thesis
      using n(2) by (simp only: power_add)
  qed
  then show "e \<le> u \<Longrightarrow> - 1074 < u \<Longrightarrow> 2 ^ 52 * 2 ^ nat (u - e) \<le> m"
    by simp
  show "u = - 1074 \<or> 2 ^ 52 \<le> q"
  proof (cases "u = - 1074")
    case True
    then show ?thesis by simp
  next
    case False
    then have gt: "- 1074 < u" and eq: "u = e + n - 53"
      using u by simp_all
    show ?thesis
    proof (cases "e \<le> u")
      case True
      have "2 ^ 52 \<le> rne_shift m (nat (u - e))"
        using big [OF True gt] by (rule rne_shift_lower)
      then show ?thesis
        using True by (simp add: q_def)
    next
      case False
      have "nat (n - 1) + nat (e - u) = 52"
        using eq False n(1) by linarith
      then have "(2::int) ^ 52 = 2 ^ nat (n - 1) * 2 ^ nat (e - u)"
        by (simp only: power_add [symmetric])
      moreover have "2 ^ nat (n - 1) * 2 ^ nat (e - u) \<le> m * 2 ^ nat (e - u)"
        using n(2) by (intro mult_right_mono) simp_all
      ultimately show ?thesis
        using False by (simp add: q_def)
    qed
  qed
qed

lemma rne_shift_half: "2 * \<bar>rne_shift m k * 2 ^ k - m\<bar> \<le> 2 ^ k"
proof (cases "k = 0")
  case True
  then show ?thesis
    by (simp add: rne_shift_def)
next
  case False
  define B :: int where "B = 2 ^ k"
  define f where "f = m div B"
  define r where "r = m mod B"
  have B: "0 < B"
    by (simp add: B_def)
  have m: "m = f * B + r" "0 \<le> r" "r < B"
    using divmod_int [OF B, of m] by (simp_all add: f_def r_def)
  have e: "(f + 1) * B = f * B + B"
    by (simp add: algebra_simps)
  have "(rne_shift m k = f \<and> 2 * r \<le> B) \<or> (rne_shift m k = f + 1 \<and> B \<le> 2 * r)"
    using rne_shift_cases [of k m] False by (simp add: B_def f_def r_def)
  then have "2 * \<bar>rne_shift m k * B - m\<bar> \<le> B"
  proof (elim disjE conjE)
    assume a: "rne_shift m k = f" "2 * r \<le> B"
    have "f * B - m = - r"
      using m by simp
    then have "2 * \<bar>f * B - m\<bar> \<le> B"
      using m a(2) by simp
    then show ?thesis
      by (simp only: a(1))
  next
    assume a: "rne_shift m k = f + 1" "B \<le> 2 * r"
    have "(f + 1) * B - m = B - r"
      using m e by simp
    then have "2 * \<bar>(f + 1) * B - m\<bar> \<le> B"
      using m a(2) by simp
    then show ?thesis
      by (simp only: a(1))
  qed
  then show ?thesis
    by (simp add: B_def)
qed

text \<open>When two integers are equally near, \<open>rne_shift\<close> gives the even one.\<close>

lemma rne_shift_tie:
  assumes "\<bar>j * 2 ^ k - m\<bar> = \<bar>rne_shift m k * 2 ^ k - m\<bar>" "j \<noteq> rne_shift m k"
  shows "even (rne_shift m k)"
proof (cases k)
  case 0
  then show ?thesis
    using assms by (simp add: rne_shift_def)
next
  case (Suc k')
  define h :: int where "h = 2 ^ k'"
  define B :: int where "B = 2 ^ k"
  define f where "f = m div B"
  define r where "r = m mod B"
  have B: "0 < B" "B = 2 * h"
    by (simp_all add: B_def h_def Suc)
  have m: "m = f * B + r" "0 \<le> r" "r < B"
    using divmod_int [OF B(1), of m] by (simp_all add: f_def r_def)
  define q where "q = rne_shift m k"
  have q: "q = (if h < r \<or> (r = h \<and> odd f) then f + 1 else f)"
    by (simp add: q_def rne_shift_def Let_def Suc B_def f_def r_def h_def)
  have eq: "\<bar>j * B - m\<bar> = \<bar>q * B - m\<bar>" and ne: "j \<noteq> q"
    using assms by (simp_all add: q_def B_def)
  have e1: "(f + 1) * B = f * B + B" "(f - 1) * B = f * B - B" "(f + 2) * B = f * B + 2 * B"
    by (simp_all add: algebra_simps)
  have mono: "x * B \<le> y * B" if "x \<le> y" for x y :: int
    using that B(1) by (intro mult_right_mono) simp_all
  show ?thesis
  proof (cases "h < r \<or> (r = h \<and> odd f)")
    case False
    then have qf: "q = f"
      by (simp add: q)
    have d: "\<bar>q * B - m\<bar> = r"
      using m by (simp add: qf)
    consider "j \<le> f - 1" | "f + 1 \<le> j"
      using ne qf by linarith
    then have "r = h"
    proof cases
      case 1
      then have "j * B \<le> f * B - B"
        using mono [of j "f - 1"] e1 by simp
      then have "B + r \<le> \<bar>j * B - m\<bar>"
        using m by linarith
      then show ?thesis
        using eq d B by linarith
    next
      case 2
      then have "f * B + B \<le> j * B"
        using mono [of "f + 1" j] e1 by simp
      then have "B - r \<le> \<bar>j * B - m\<bar>"
        using m by linarith
      then show ?thesis
        using eq d B False by linarith
    qed
    then show ?thesis
      using False qf by (simp add: q_def)
  next
    case True
    then have qf: "q = f + 1"
      by (simp add: q)
    have d: "\<bar>q * B - m\<bar> = B - r"
      using m e1 by (simp add: qf)
    consider "j \<le> f" | "f + 2 \<le> j"
      using ne qf by linarith
    then have "r = h \<and> odd f"
    proof cases
      case 1
      then have "j * B \<le> f * B"
        by (rule mono)
      then have "r \<le> \<bar>j * B - m\<bar>"
        using m by linarith
      then show ?thesis
        using eq d B True by linarith
    next
      case 2
      then have "f * B + 2 * B \<le> j * B"
        using mono [of "f + 2" j] e1 by simp
      then have "2 * B - r \<le> \<bar>j * B - m\<bar>"
        using m by linarith
      then show ?thesis
        using eq d B by linarith
    qed
    then show ?thesis
      using qf by (simp add: q_def)
  qed
qed

text \<open>An even significand gives an even fraction field.\<close>

lemma make_frac_even:
  fixes U :: nat and s :: bool
  assumes "0 \<le> q" "q \<le> 2 ^ 53" "int U * 2 ^ 52 + q < 2047 * 2 ^ 52" "even q"
  shows "even (dfrac (dzero s + word_of_int (int U * 2 ^ 52 + q)))"
proof -
  define P :: int where "P = 2 ^ 52"
  define x where "x = int U * P + q"
  have P: "0 < P" "(2::int) ^ 53 = 2 * P" "even P"
    by (simp_all add: P_def)
  have x: "0 \<le> x" "x < 2047 * P"
    using assms(1,3) P by (simp_all add: x_def P_def)
  have f: "dfrac (dzero s + word_of_int (int U * 2 ^ 52 + q)) = x mod P"
    using make_fields(3) [of x s] x unfolding x_def P_def by simp
  consider (sub) "q < P" | (norm) "P \<le> q" "q < 2 * P" | (carry) "q = 2 * P"
    using assms(2) P by linarith
  then have "even (x mod P)"
  proof cases
    case sub
    have "x mod P = q"
      using divmod_unique(2) [of x "int U" P q] sub assms(1) by (simp add: x_def)
    then show ?thesis
      using assms(4) by simp
  next
    case norm
    have "x = (int U + 1) * P + (q - P)"
      by (simp add: x_def algebra_simps)
    then have "x mod P = q - P"
      using divmod_unique(2) [of x "int U + 1" P "q - P"] norm by simp
    then show ?thesis
      using assms(4) P(3) by simp
  next
    case carry
    have "x = (int U + 2) * P + 0"
      by (simp add: x_def carry algebra_simps)
    then have "x mod P = 0"
      using divmod_unique(2) [of x "int U + 2" P 0] P by simp
    then show ?thesis
      by simp
  qed
  then show ?thesis
    by (simp only: f)
qed

text \<open>
  The result of \<open>dround\<close>: either a finite double with the sign asked for, such that
  no finite double is nearer to \<open>m * 2 ^ e\<close>, and whose fraction field is even when
  another one is as near; or the infinity, and \<open>m * 2 ^ e\<close> is at least half a unit in
  the last place above the greatest finite double. Magnitudes are in units of
  \<open>2 ^ - 1074\<close>.
\<close>

lemma dround_result:
  fixes m e :: int and s :: bool
  assumes "0 < m" "- 1074 \<le> e"
  defines "X \<equiv> m * 2 ^ nat (e + 1074)"
  shows "(isfinite (dround s m e) \<and> dsign (dround s m e) = s \<and>
          (\<forall>M D. 0 \<le> M \<and> M < 2 ^ 53 \<longrightarrow>
             \<bar>mval (dround s m e) - X\<bar> \<le> \<bar>M * 2 ^ D - X\<bar>) \<and>
          (\<forall>M D. 0 \<le> M \<and> M < 2 ^ 53 \<and> M * 2 ^ D \<noteq> mval (dround s m e) \<and>
             \<bar>M * 2 ^ D - X\<bar> = \<bar>mval (dround s m e) - X\<bar> \<longrightarrow>
             even (dfrac (dround s m e)))) \<or>
         (dround s m e = dinfinity s \<and> 2 ^ 2098 - 2 ^ 2044 \<le> X)"
proof -
  define u where "u = max (e + nbits m - 53) (- 1074)"
  define q where "q = (if e \<le> u then rne_shift m (nat (u - e)) else m * 2 ^ nat (e - u))"
  define U where "U = nat (u + 1074)"
  define E where "E = nat (e + 1074)"
  define k where "k = nat (u - e)"
  note sb = significand_bounds [OF assms(1), of e, folded u_def q_def]
  have u: "- 1074 \<le> u"
    by (simp add: u_def)
  have U: "int U = u + 1074"
    using u by (simp add: U_def)
  have r: "dround s m e =
      (if 2047 * 2 ^ 52 \<le> int U * 2 ^ 52 + q then dinfinity s
       else dzero s + word_of_int (int U * 2 ^ 52 + q))"
    using assms(1) by (simp add: dround_def Let_def u_def [symmetric] q_def [symmetric] U)
  have X: "X = m * 2 ^ E"
    by (simp add: X_def E_def)
  have exact: "q * 2 ^ U = X" if "\<not> e \<le> u"
  proof -
    have "E = nat (e - u) + U"
      using that u by (simp add: E_def U_def)
    then show ?thesis
      using that by (simp add: q_def X power_add mult.assoc)
  qed
  have UE: "U = k + E" if "e \<le> u"
    using that assms(2) by (simp add: U_def E_def k_def)
  have qk: "q = rne_shift m k" if "e \<le> u"
    using that by (simp add: q_def k_def)
  have scaled: "q * 2 ^ U - X = (q * 2 ^ k - m) * 2 ^ E" if "e \<le> u"
    by (simp add: UE [OF that] X power_add algebra_simps)
  have big: "2 ^ 52 * 2 ^ U \<le> X" if "e \<le> u" "0 < U"
  proof -
    have "2 ^ 52 * 2 ^ k \<le> m"
      using sb(4) that U by (simp add: k_def)
    then have "(2 ^ 52 * 2 ^ k) * 2 ^ E \<le> m * 2 ^ E"
      by (intro mult_right_mono) simp_all
    then show ?thesis
      by (simp add: UE [OF that(1)] X power_add mult.assoc)
  qed
  text \<open>A double with a unit in the last place of \<open>2 ^ U\<close> or more is a multiple of \<open>2 ^ U\<close>.\<close>
  have coarse: "M * 2 ^ D - X = (M * 2 ^ (D - U) * 2 ^ k - m) * 2 ^ E \<and>
      M * 2 ^ D = M * 2 ^ (D - U) * 2 ^ U"
    if "e \<le> u" "U \<le> D" for M :: int and D
  proof -
    have p1: "(2::int) ^ D = 2 ^ (D - U) * 2 ^ U"
      using that(2) by (simp add: power_add [symmetric])
    have p2: "(2::int) ^ U = 2 ^ k * 2 ^ E"
      using UE [OF that(1)] by (simp add: power_add)
    have "M * 2 ^ D = M * 2 ^ (D - U) * 2 ^ U"
      by (simp only: p1 mult.assoc)
    moreover have "M * 2 ^ D - X = (M * 2 ^ (D - U) * 2 ^ k - m) * 2 ^ E"
      by (simp add: p1 p2 X algebra_simps)
    ultimately show ?thesis
      by simp
  qed
  text \<open>A double with a smaller unit in the last place is below \<open>2 ^ 52 * 2 ^ U\<close>, and farther.\<close>
  have fine: "\<bar>q * 2 ^ U - X\<bar> < \<bar>M * 2 ^ D - X\<bar>"
    if "e \<le> u" "\<not> U \<le> D" "0 \<le> M" "M < 2 ^ 53" for M :: int and D
  proof -
    have pos: "0 < U" and D: "D \<le> U - 1"
      using that(2) by simp_all
    define W :: int where "W = 2 ^ 52 * 2 ^ U"
    define Y :: int where "Y = 2 ^ 52 * 2 ^ k"
    have WX: "W \<le> X"
      using big [OF that(1) pos] by (simp add: W_def)
    have "M * 2 ^ D \<le> M * 2 ^ (U - 1)"
      using D that(3) by (intro mult_left_mono power_increasing) simp_all
    moreover have "M * 2 ^ (U - 1) < 2 ^ 53 * 2 ^ (U - 1)"
      using that(4) by (intro mult_strict_right_mono) simp_all
    moreover have "(2::int) ^ 53 * 2 ^ (U - 1) = W"
    proof -
      have "53 + (U - 1) = 52 + U"
        using pos by simp
      then show ?thesis
        unfolding W_def by (simp only: power_add [symmetric])
    qed
    ultimately have MW: "M * 2 ^ D < W"
      by linarith
    have "\<bar>q * 2 ^ k - m\<bar> \<le> \<bar>Y - m\<bar>"
      using rne_shift_nearest [of m k "2 ^ 52"] by (simp add: qk [OF that(1)] Y_def)
    then have "\<bar>q * 2 ^ k - m\<bar> * 2 ^ E \<le> \<bar>Y - m\<bar> * 2 ^ E"
      by (intro mult_right_mono) simp_all
    moreover have "W - X = (Y - m) * 2 ^ E"
      by (simp add: W_def Y_def UE [OF that(1)] X power_add algebra_simps)
    then have "\<bar>W - X\<bar> = \<bar>Y - m\<bar> * 2 ^ E"
      by (simp add: abs_mult)
    moreover have "\<bar>q * 2 ^ U - X\<bar> = \<bar>q * 2 ^ k - m\<bar> * 2 ^ E"
      by (simp add: scaled [OF that(1)] abs_mult)
    ultimately have "\<bar>q * 2 ^ U - X\<bar> \<le> \<bar>W - X\<bar>"
      by linarith
    then show ?thesis
      using WX MW by linarith
  qed
  have near: "\<bar>q * 2 ^ U - X\<bar> \<le> \<bar>M * 2 ^ D - X\<bar>" if M: "0 \<le> M" "M < 2 ^ 53" for M :: int and D
  proof (cases "e \<le> u")
    case False
    then show ?thesis
      using exact by simp
  next
    case True
    show ?thesis
    proof (cases "U \<le> D")
      case le: True
      define j where "j = M * 2 ^ (D - U)"
      have "M * 2 ^ D - X = (j * 2 ^ k - m) * 2 ^ E"
        using coarse [OF True le, of M] by (simp add: j_def)
      moreover have "\<bar>q * 2 ^ k - m\<bar> * 2 ^ E \<le> \<bar>j * 2 ^ k - m\<bar> * 2 ^ E"
        using rne_shift_nearest [of m k j] by (intro mult_right_mono) (simp_all add: qk [OF True])
      ultimately show ?thesis
        by (simp add: scaled [OF True] abs_mult)
    next
      case False
      then show ?thesis
        using fine [OF True False M] by simp
    qed
  qed
  have tie: "even q"
    if M: "0 \<le> M" "M < 2 ^ 53" "M * 2 ^ D \<noteq> q * 2 ^ U" "\<bar>M * 2 ^ D - X\<bar> = \<bar>q * 2 ^ U - X\<bar>"
    for M :: int and D
  proof (cases "e \<le> u")
    case False
    then show ?thesis
      using exact M(3,4) by simp
  next
    case True
    show ?thesis
    proof (cases "U \<le> D")
      case le: True
      define j where "j = M * 2 ^ (D - U)"
      have c: "M * 2 ^ D - X = (j * 2 ^ k - m) * 2 ^ E" "M * 2 ^ D = j * 2 ^ U"
        using coarse [OF True le, of M] by (simp_all add: j_def)
      have "j \<noteq> q"
        using M(3) c(2) by auto
      moreover have "\<bar>j * 2 ^ k - m\<bar> * 2 ^ E = \<bar>q * 2 ^ k - m\<bar> * 2 ^ E"
        using M(4) by (simp add: c(1) scaled [OF True] abs_mult)
      then have "\<bar>j * 2 ^ k - m\<bar> = \<bar>q * 2 ^ k - m\<bar>"
        by simp
      ultimately show ?thesis
        using rne_shift_tie [of j k m] by (simp add: qk [OF True])
    next
      case False
      then show ?thesis
        using fine [OF True False M(1,2)] M(4) by simp
    qed
  qed
  show ?thesis
  proof (cases "2047 * 2 ^ 52 \<le> int U * 2 ^ 52 + q")
    case False
    then have lt: "int U * 2 ^ 52 + q < 2047 * 2 ^ 52"
      by simp
    have z: "U = 0 \<or> 2 ^ 52 \<le> q"
      using sb(3) U by auto
    note mv = make_value [OF sb(1) sb(2) z lt, of s]
    note ev = make_frac_even [OF sb(1) sb(2) lt, of s]
    have "dround s m e = dzero s + word_of_int (int U * 2 ^ 52 + q)"
      using False by (simp only: r if_False)
    then show ?thesis
      using mv ev near tie by auto
  next
    case True
    have inf: "dround s m e = dinfinity s"
      using True by (simp only: r if_True)
    define P :: int where "P = 2 ^ 52"
    have q2: "q \<le> 2 * P"
      using sb(2) by (simp add: P_def)
    have over: "2047 * P \<le> int U * P + q"
      using True by (simp add: P_def)
    have U45: "2045 \<le> U"
    proof (rule ccontr)
      assume "\<not> 2045 \<le> U"
      then have "int U * P \<le> 2044 * P"
        by (intro mult_right_mono) (simp_all add: P_def)
      then show False
        using q2 over by (simp add: P_def)
    qed
    define G :: int where "G = 2 ^ 2044"
    define Z :: int where "Z = 2 ^ 2098"
    have G: "0 < G" "Z = 2 ^ 54 * G" "(2::int) ^ 2045 = 2 * G"
      by (simp_all add: G_def Z_def)
    have lower: "2 ^ 52 * 2 ^ U \<le> X" if "0 < U"
    proof (cases "e \<le> u")
      case True
      then show ?thesis
        using big that by simp
    next
      case False
      have "2 ^ 52 \<le> q"
        using sb(3) U that by auto
      then have "2 ^ 52 * 2 ^ U \<le> q * 2 ^ U"
        by (intro mult_right_mono) simp_all
      then show ?thesis
        using exact [OF False] by simp
    qed
    have "Z - G \<le> X"
    proof (cases "2046 \<le> U")
      case True
      then have "(2::int) ^ 2046 \<le> 2 ^ U"
        by (intro power_increasing) simp_all
      then have "2 ^ 52 * (2::int) ^ 2046 \<le> 2 ^ 52 * 2 ^ U"
        by (intro mult_left_mono) simp_all
      moreover have "2 ^ 52 * (2::int) ^ 2046 = Z"
        by (simp add: Z_def)
      moreover have "2 ^ 52 * 2 ^ U \<le> X"
        using lower True by simp
      ultimately show ?thesis
        using G(1) by linarith
    next
      case False
      then have U_eq: "U = 2045"
        using U45 by simp
      have "2 * P \<le> q"
        using over by (simp add: U_eq)
      then have q_eq: "q = 2 ^ 53"
        using q2 by (simp add: P_def)
      have R: "q * 2 ^ U = Z"
        by (simp add: q_eq U_eq Z_def)
      show ?thesis
      proof (cases "e \<le> u")
        case False
        then show ?thesis
          using exact R G(1) by simp
      next
        case True
        have "2 * \<bar>q * 2 ^ k - m\<bar> * 2 ^ E \<le> 2 ^ k * 2 ^ E"
          using rne_shift_half [of m k] by (intro mult_right_mono) (simp_all add: qk [OF True])
        moreover have "\<bar>q * 2 ^ U - X\<bar> = \<bar>q * 2 ^ k - m\<bar> * 2 ^ E"
          by (simp add: scaled [OF True] abs_mult)
        moreover have "(2::int) ^ k * 2 ^ E = 2 * G"
          using UE [OF True] G(3) by (simp add: U_eq power_add [symmetric])
        ultimately have "2 * \<bar>q * 2 ^ U - X\<bar> \<le> 2 * G"
          by simp
        then have "\<bar>Z - X\<bar> \<le> G"
          unfolding R by simp
        then show ?thesis
          by linarith
      qed
    qed
    then have "2 ^ 2098 - 2 ^ 2044 \<le> X"
      by (simp only: G_def Z_def)
    then show ?thesis
      using inf by simp
  qed
qed

subsection \<open>Negation, NaN, zeros and infinities\<close>

lemma xor_pow_int: "(k::int) XOR 2 ^ n = (if odd (k div 2 ^ n) then k - 2 ^ n else k + 2 ^ n)"
  using flip_bit_eq_if [of n k]
  by (simp add: flip_bit_int_def set_bit_eq unset_bit_eq bit_int_def)

lemma div_top:
  fixes x B :: int
  assumes "0 \<le> x" "x < 2 * B"
  shows "x div B = (if x < B then 0 else 1)"
proof (cases "x < B")
  case True
  then show ?thesis
    using assms by (simp add: div_pos_pos_trivial)
next
  case False
  then have "x = 1 * B + (x - B)" "0 \<le> x - B" "x - B < B"
    using assms by simp_all
  then have "x div B = 1"
    by (rule divmod_unique)
  then show ?thesis
    using False by simp
qed

lemma uint_fneg:
  "uint (fneg a) = (if uint a < 2 ^ 63 then uint a + 2 ^ 63 else uint a - 2 ^ 63)"
proof -
  have b: "0 \<le> uint a" "uint a < 2 * 2 ^ 63"
    using uint_bounded [of a] by simp_all
  have "uint (fneg a) = uint a XOR 2 ^ 63"
    unfolding fneg_def uint_xor by simp
  moreover have "odd (uint a div 2 ^ 63) \<longleftrightarrow> \<not> uint a < 2 ^ 63"
    using div_top [OF b] by simp
  ultimately show ?thesis
    by (simp only: xor_pow_int) simp
qed

lemma fneg_fields:
  "dsign (fneg a) = (\<not> dsign a)" "dexp (fneg a) = dexp a" "dfrac (fneg a) = dfrac a"
proof -
  define x where "x = uint a"
  define P :: int where "P = 2 ^ 52"
  have b: "0 \<le> x" "x < 2 * 2 ^ 63"
    using uint_bounded [of a] by (simp_all add: x_def)
  have p: "(2::int) ^ 63 = 2048 * P"
    by (simp add: P_def)
  have u: "uint (fneg a) = (if x < 2048 * P then x + 2048 * P else x - 2048 * P)"
    using uint_fneg [of a] by (simp only: p x_def)
  show "dsign (fneg a) = (\<not> dsign a)"
    using b unfolding dsign_def u x_def [symmetric] p by auto
  have "(x - 2048 * P) div P mod 2048 = x div P mod 2048"
    using field_shift(1) [of "x - 2048 * P" P] by simp
  then show "dexp (fneg a) = dexp a"
    unfolding dexp_def u x_def [symmetric] P_def [symmetric]
    using field_shift(1) [of x P] by simp
  have "(x - 2048 * P) mod P = x mod P"
    using field_shift(2) [of "x - 2048 * P" P] by simp
  then show "dfrac (fneg a) = dfrac a"
    unfolding dfrac_def u x_def [symmetric] P_def [symmetric]
    using field_shift(2) [of x P] by simp
qed

lemma fneg_simps:
  "dmag (fneg a) = dmag a" "dpow (fneg a) = dpow a" "isnan (fneg a) = isnan a"
  "isinf (fneg a) = isinf a" "isfinite (fneg a) = isfinite a" "dval (fneg a) = - dval a"
  by (simp_all add: dmag_def dpow_def isnan_def isinf_def isfinite_def dval_def fneg_fields)

lemma nan_mask: "(0x7FF8000000000000 :: int) = push_bit 51 (mask 12)"
  by (simp add: push_bit_eq_mult mask_eq_exp_minus_1)

lemma exp_or: "take_bit 11 (drop_bit 52 (k OR 0x7FF8000000000000 :: int)) = mask 11"
  unfolding nan_mask
  by (rule bit_eqI) (auto simp add: bit_simps)

lemma frac_or: "bit (take_bit 52 (k OR 0x7FF8000000000000 :: int)) 51"
  unfolding nan_mask
  by (simp add: bit_simps)

lemma isnan_quiet_nan: "isnan (quiet_nan d)"
proof -
  have u: "uint (quiet_nan d) = uint d OR 0x7FF8000000000000"
    unfolding quiet_nan_def uint_or by simp
  have "dexp (quiet_nan d) = 2047"
    unfolding dexp_def u using exp_or [of "uint d"]
    by (simp add: take_bit_eq_mod drop_bit_eq_div mask_eq_exp_minus_1)
  moreover have "dfrac (quiet_nan d) \<noteq> 0"
  proof
    assume "dfrac (quiet_nan d) = 0"
    then have "take_bit 52 (uint d OR 0x7FF8000000000000) = 0"
      unfolding dfrac_def u by (simp add: take_bit_eq_mod)
    then show False
      using frac_or [of "uint d"] by simp
  qed
  ultimately show ?thesis
    by (simp add: isnan_def)
qed

lemma dzero_simps: "isfinite (dzero s)" "dval (dzero s) = 0"
  by (cases s; simp add: isfinite_iff dval_def dmag_def dexp_def dfrac_def dzero_def)+

lemma dinfinity_simps: "isinf (dinfinity s)" "dsign (dinfinity s) = s"
  by (cases s; simp add: isinf_def dsign_def dexp_def dfrac_def dinfinity_def)+

lemma mval_nonneg: "0 \<le> mval d"
  using dmag_range(1) [of d] by (simp add: mval_def)

lemma dval_mval: "dval d = (if dsign d then - mval d else mval d)"
  by (simp add: dval_def mval_def)

lemma abs_dval: "\<bar>dval d\<bar> = mval d"
  using mval_nonneg [of d] by (simp add: dval_mval)

subsection \<open>Sums and differences\<close>

lemma finite_flags: "isfinite d \<Longrightarrow> \<not> isnan d \<and> \<not> isinf d"
  by (simp add: isfinite_def)

lemma dval_aligned:
  assumes "e \<le> dpow d" "- 1074 \<le> e"
  shows "dval d = (if dsign d then - (dmag d * 2 ^ nat (dpow d - e)) else dmag d * 2 ^ nat (dpow d - e)) *
    2 ^ nat (e + 1074)"
proof -
  have "nat (dpow d + 1074) = nat (dpow d - e) + nat (e + 1074)"
    using assms by linarith
  then show ?thesis
    by (simp add: dval_def power_add)
qed

lemma dval_zero_iff: "dval d = 0 \<longleftrightarrow> dmag d = 0"
  by (simp add: dval_def)

text \<open>
  The sum of two finite doubles is a finite double nearest to their exact sum, with an
  even fraction field when another finite double is as near, and the zero whose sign
  bit is set only if it is set in both operands when the exact sum is zero; or the exact
  sum is beyond half a unit in the last place above the greatest finite double and the
  sum is the infinity of its sign.
\<close>

lemma dsum_result:
  assumes "isfinite a" "isfinite b"
  defines "X \<equiv> dval a + dval b"
  shows "(isfinite (dsum a b) \<and>
          (\<forall>d. isfinite d \<longrightarrow> \<bar>dval (dsum a b) - X\<bar> \<le> \<bar>dval d - X\<bar>) \<and>
          (\<forall>d. isfinite d \<and> dval d \<noteq> dval (dsum a b) \<and>
             \<bar>dval d - X\<bar> = \<bar>dval (dsum a b) - X\<bar> \<longrightarrow> even (dfrac (dsum a b))) \<and>
          (X = 0 \<longrightarrow> dsum a b = dzero (dsign a \<and> dsign b))) \<or>
         (dsum a b = dinfinity (X < 0) \<and> 2 ^ 2098 - 2 ^ 2044 \<le> \<bar>X\<bar>)"
proof -
  have fl: "\<not> isinf a" "\<not> isinf b"
    using assms by (simp_all add: isfinite_def)
  have zero: "dval d = 0" if "dmag d = 0" for d
    using that by (simp add: dval_def)
  text \<open>A result that is the exact sum.\<close>
  have exact: ?thesis
    if "isfinite (dsum a b)" "dval (dsum a b) = X" "X = 0 \<longrightarrow> dsum a b = dzero (dsign a \<and> dsign b)"
    using that by auto
  consider (zeros) "dmag a = 0" "dmag b = 0" | (left) "dmag a = 0" "dmag b \<noteq> 0"
    | (right) "dmag a \<noteq> 0" "dmag b = 0" | (both) "dmag a \<noteq> 0" "dmag b \<noteq> 0"
    by blast
  then show ?thesis
  proof cases
    case zeros
    then have "dsum a b = dzero (dsign a \<and> dsign b)" "X = 0"
      using fl by (simp_all add: dsum_def X_def zero)
    then show ?thesis
      by (intro exact) (simp_all add: dzero_simps)
  next
    case left
    then have "dsum a b = b" "X = dval b" "X \<noteq> 0"
      using fl by (simp_all add: dsum_def X_def zero dval_zero_iff)
    then show ?thesis
      using assms(2) by (intro exact) simp_all
  next
    case right
    then have "dsum a b = a" "X = dval a" "X \<noteq> 0"
      using fl by (simp_all add: dsum_def X_def zero dval_zero_iff)
    then show ?thesis
      using assms(1) by (intro exact) simp_all
  next
    case both
    define e where "e = min (dpow a) (dpow b)"
    define x where "x = dmag a * 2 ^ nat (dpow a - e)"
    define y where "y = dmag b * 2 ^ nat (dpow b - e)"
    define m where "m = (if dsign a then - x else x) + (if dsign b then - y else y)"
    define E where "E = nat (e + 1074)"
    have e: "e \<le> dpow a" "e \<le> dpow b" "- 1074 \<le> e"
      using dpow_range(1) [of a] dpow_range(1) [of b] by (simp_all add: e_def)
    have s: "dsum a b = (if m = 0 then dzero (dsign a \<and> dsign b) else dround (m < 0) \<bar>m\<bar> e)"
      using fl both by (simp add: dsum_def Let_def e_def x_def y_def m_def)
    have X: "X = m * 2 ^ E"
      unfolding X_def dval_aligned [OF e(1) e(3)] dval_aligned [OF e(2) e(3)]
      by (simp add: m_def x_def y_def E_def algebra_simps)
    show ?thesis
    proof (cases "m = 0")
      case True
      then show ?thesis
        by (intro exact) (simp_all add: s X dzero_simps)
    next
      case False
      define r where "r = dround (m < 0) \<bar>m\<bar> e"
      define A where "A = \<bar>m\<bar> * 2 ^ E"
      have r: "dsum a b = r"
        using False by (simp add: s r_def)
      have A: "\<bar>X\<bar> = A" "X = (if m < 0 then - A else A)" "(X < 0) = (m < 0)" "0 < A"
        using False by (auto simp: X A_def abs_mult mult_less_0_iff)
      have pos: "0 < \<bar>m\<bar>"
        using False by simp
      have "(isfinite r \<and> dsign r = (m < 0) \<and>
            (\<forall>M D. 0 \<le> M \<and> M < 2 ^ 53 \<longrightarrow> \<bar>mval r - A\<bar> \<le> \<bar>M * 2 ^ D - A\<bar>) \<and>
            (\<forall>M D. 0 \<le> M \<and> M < 2 ^ 53 \<and> M * 2 ^ D \<noteq> mval r \<and>
               \<bar>M * 2 ^ D - A\<bar> = \<bar>mval r - A\<bar> \<longrightarrow> even (dfrac r))) \<or>
          (r = dinfinity (m < 0) \<and> 2 ^ 2098 - 2 ^ 2044 \<le> A)"
        using dround_result [OF pos e(3), of "m < 0"] by (simp only: r_def A_def E_def)
      then show ?thesis
      proof (elim disjE conjE)
        assume fin: "isfinite r" and sign: "dsign r = (m < 0)"
          and near: "\<forall>M D. 0 \<le> M \<and> M < 2 ^ 53 \<longrightarrow> \<bar>mval r - A\<bar> \<le> \<bar>M * 2 ^ D - A\<bar>"
          and tie: "\<forall>M D. 0 \<le> M \<and> M < 2 ^ 53 \<and> M * 2 ^ D \<noteq> mval r \<and>
               \<bar>M * 2 ^ D - A\<bar> = \<bar>mval r - A\<bar> \<longrightarrow> even (dfrac r)"
        have dr: "dval r = (if m < 0 then - mval r else mval r)"
          using sign by (simp add: dval_mval)
        have rX: "\<bar>dval r - X\<bar> = \<bar>mval r - A\<bar>"
          by (simp add: dr A(2) abs_minus_commute)
        have mags: "\<bar>mval r - A\<bar> \<le> \<bar>mval d - A\<bar>" "\<bar>mval d - A\<bar> \<le> \<bar>dval d - X\<bar>" for d
        proof -
          show "\<bar>mval r - A\<bar> \<le> \<bar>mval d - A\<bar>"
            using near dmag_range [of d] by (simp add: mval_def [of d])
          have "\<bar>\<bar>dval d\<bar> - \<bar>X\<bar>\<bar> \<le> \<bar>dval d - X\<bar>"
            by (rule abs_triangle_ineq3)
          then show "\<bar>mval d - A\<bar> \<le> \<bar>dval d - X\<bar>"
            by (simp add: abs_dval A(1))
        qed
        have nearest: "\<bar>dval r - X\<bar> \<le> \<bar>dval d - X\<bar>" for d
          using mags [of d] rX by linarith
        have even: "even (dfrac r)"
          if d: "dval d \<noteq> dval r" "\<bar>dval d - X\<bar> = \<bar>dval r - X\<bar>" for d
        proof (cases "mval d = mval r")
          case True
          have "0 \<le> mval r"
            by (rule mval_nonneg)
          then have False
            using d True A(4) by (auto simp: dval_mval [of d] dr A(2) split: if_splits)
          then show ?thesis ..
        next
          case False
          have "\<bar>mval d - A\<bar> = \<bar>mval r - A\<bar>"
            using mags [of d] d(2) rX by linarith
          then have "0 \<le> dmag d \<and> dmag d < 2 ^ 53 \<and>
              dmag d * 2 ^ nat (dpow d + 1074) \<noteq> mval r \<and>
              \<bar>dmag d * 2 ^ nat (dpow d + 1074) - A\<bar> = \<bar>mval r - A\<bar>"
            using False dmag_range [of d] by (simp add: mval_def [of d])
          then show ?thesis
            using tie by blast
        qed
        have "X \<noteq> 0"
          using A(1,4) by auto
        then show ?thesis
          using fin nearest even by (auto simp: r)
      next
        assume "r = dinfinity (m < 0)" "2 ^ 2098 - 2 ^ 2044 \<le> A"
        then show ?thesis
          by (simp add: r A(1) A(3))
      qed
    qed
  qed
qed

lemma fsub_finite:
  assumes "isfinite a" "isfinite b"
  shows "fsub nan a b = dsum a (fneg b)"
  using assms by (simp add: fsub_def isfinite_def)

text \<open>What \<open>a - b\<close> is, case by case.\<close>

lemma fsub_nan:
  "isnan a \<or> isnan b \<or> (isinf a \<and> isinf b \<and> dsign a = dsign b) \<Longrightarrow> isnan (fsub nan a b)"
  by (simp add: fsub_def isnan_quiet_nan)

lemma fsub_inf_left:
  "isinf a \<Longrightarrow> \<not> isnan b \<Longrightarrow> \<not> (isinf b \<and> dsign a = dsign b) \<Longrightarrow> fsub nan a b = a"
  by (auto simp: fsub_def dsum_def isnan_def isinf_def)

lemma fsub_inf_right:
  assumes "isfinite a" "isinf b"
  shows "fsub nan a b = fneg b"
proof -
  have "\<not> isnan a" "\<not> isinf a"
    using assms(1) by (simp_all add: isfinite_def)
  moreover have "\<not> isnan b"
    using assms(2) by (simp add: isnan_def isinf_def)
  moreover have "isinf (fneg b)"
    using assms(2) by (simp add: fneg_simps)
  ultimately show ?thesis
    by (simp add: fsub_def dsum_def)
qed

lemma fsub_result:
  assumes "isfinite a" "isfinite b"
  defines "X \<equiv> dval a - dval b"
  shows "(isfinite (fsub nan a b) \<and>
          (\<forall>d. isfinite d \<longrightarrow> \<bar>dval (fsub nan a b) - X\<bar> \<le> \<bar>dval d - X\<bar>) \<and>
          (\<forall>d. isfinite d \<and> dval d \<noteq> dval (fsub nan a b) \<and>
             \<bar>dval d - X\<bar> = \<bar>dval (fsub nan a b) - X\<bar> \<longrightarrow>
             even (dfrac (fsub nan a b))) \<and>
          (X = 0 \<longrightarrow> fsub nan a b = dzero (dsign a \<and> \<not> dsign b))) \<or>
         (fsub nan a b = dinfinity (X < 0) \<and> 2 ^ 2098 - 2 ^ 2044 \<le> \<bar>X\<bar>)"
proof -
  have "isfinite (fneg b)"
    using assms(2) by (simp add: fneg_simps)
  from dsum_result [OF assms(1) this] show ?thesis
    by (simp only: fsub_finite [OF assms(1,2)] fneg_simps fneg_fields X_def
        diff_conv_add_uminus [symmetric])
qed

lemma infinity_not_finite: "\<not> isfinite (dinfinity s)"
  using dinfinity_simps(1) [of s] by (simp add: isfinite_def)

lemma fsub_nearest:
  assumes "isfinite a" "isfinite b" "isfinite (fsub nan a b)" "isfinite d"
  shows "\<bar>dval (fsub nan a b) - (dval a - dval b)\<bar> \<le> \<bar>dval d - (dval a - dval b)\<bar>"
  using fsub_result [OF assms(1,2), of nan] assms(3,4) infinity_not_finite by auto

lemma fsub_ties_to_even:
  assumes "isfinite a" "isfinite b" "isfinite (fsub nan a b)" "isfinite d"
    and "dval d \<noteq> dval (fsub nan a b)"
    and "\<bar>dval d - (dval a - dval b)\<bar> = \<bar>dval (fsub nan a b) - (dval a - dval b)\<bar>"
  shows "even (dfrac (fsub nan a b))"
  using fsub_result [OF assms(1,2), of nan] assms(3-) infinity_not_finite by auto

lemma fsub_zero:
  assumes "isfinite a" "isfinite b" "dval a = dval b"
  shows "fsub nan a b = dzero (dsign a \<and> \<not> dsign b)"
proof -
  have "\<not> (2::int) ^ 2098 - 2 ^ 2044 \<le> 0"
    by simp
  then show ?thesis
    using fsub_result [OF assms(1,2), of nan] assms(3) by auto
qed

lemma fsub_overflow:
  assumes "isfinite a" "isfinite b" "\<not> isfinite (fsub nan a b)"
  shows "fsub nan a b = dinfinity (dval a < dval b) \<and> 2 ^ 2098 - 2 ^ 2044 \<le> \<bar>dval a - dval b\<bar>"
  using fsub_result [OF assms(1,2), of nan] assms(3) by auto

text \<open>The same holds of \<open>a + b\<close>.\<close>

lemma fadd_finite:
  assumes "isfinite a" "isfinite b"
  shows "fadd nan a b = dsum a b"
  using assms by (simp add: fadd_def isfinite_def)

lemma fadd_nearest:
  assumes "isfinite a" "isfinite b" "isfinite (fadd nan a b)" "isfinite d"
  shows "\<bar>dval (fadd nan a b) - (dval a + dval b)\<bar> \<le> \<bar>dval d - (dval a + dval b)\<bar>"
  using dsum_result [OF assms(1,2)] assms(3,4) infinity_not_finite
  by (auto simp: fadd_finite [OF assms(1,2)])

section \<open>Subtraction\<close>

lemma step_SUB:
  assumes "NCODE vm = Inr (SUB, vm')" "1 \<le> sp vm" "sp vm < STACK_SIZE"
    "stack vm (sp vm - 1) = a" "stack vm (sp vm) = b"
  shows "step bld vm =
    Break (vm'\<lparr>sp := sp vm - 1, stack := (stack vm)(sp vm - 1 := fsub (nan_result bld) a b)\<rparr>) []"
  using assms NCODE_Inr [OF assms(1)]
  by (simp add: step_def and_then_def push_break_def PUSH_def POP_def STACK_SIZE_def
      opcode_defs Let_def)

lemma run_bytecode:
  "run bld (newVM bytecode mem) =
     Some (Exited EXIT_SUCCESS
       \<lparr>r1 = double_of_int 0, r2 = double_of_int 0, code = bytecode,
         stack = mem(0 := double_of_int 1, 1 := double_of_int 1), pc = 5, sp = - 1\<rparr>
       (''1.000000'' @ newline))"
proof -
  have "turns 5 bld (newVM bytecode mem) [] =
     Return EXIT_SUCCESS
       \<lparr>r1 = double_of_int 0, r2 = double_of_int 0, code = bytecode,
         stack = mem(0 := double_of_int 1, 1 := double_of_int 1), pc = 5, sp = - 1\<rparr>
       (''1.000000'' @ newline)"
    by (simp add: turns_numeral turns_1 newVM_def bytecode_def vm_defs opcode_defs
        fsub_2_1 printf_f_1 fun_upd_twist)
  then show ?thesis
    unfolding run_def by (rule run_loop_Return)
qed

text \<open>
  Differences of particular doubles: \<open>1 - 2\<close>; \<open>1 - 2 ^ - 54\<close>, which lies half way
  between \<open>1 - 2 ^ - 53\<close> (the pattern \<open>3FEFFFFFFFFFFFFF\<close>) and 1 and goes to 1, whose
  last bit is even; the greatest finite double minus its negation, which overflows. On
  x86-64 \<open>inf - inf\<close> is the default NaN, and a NaN operand comes back with its sign
  and payload and the quiet bit set.
\<close>

lemma fsub_1_2: "fsub nan (double_of_int 1) (double_of_int 2) = double_of_int (- 1)"
  by code_simp

lemma fsub_tie: "fsub nan (double_of_int 1) 0x3C90000000000000 = double_of_int 1"
  by code_simp

lemma fsub_max: "fsub nan 0x7FEFFFFFFFFFFFFF 0xFFEFFFFFFFFFFFFF = 0x7FF0000000000000"
  by code_simp

lemma fsub_inf_inf_sse2:
  "fsub sse2_nan 0x7FF0000000000000 0x7FF0000000000000 = 0xFFF8000000000000"
  by code_simp

lemma fsub_nan_sse2:
  "fsub sse2_nan 0x7FF0000000000001 (double_of_int 1) = 0x7FF8000000000001"
  "fsub sse2_nan (double_of_int 1) 0xFFF0000000000001 = 0xFFF8000000000001"
  by code_simp+

lemma inf_flags:
  "isinf 0x7FF0000000000000" "\<not> isnan 0x7FF0000000000000" "\<not> dsign 0x7FF0000000000000"
  "\<not> isfinite 0x7FF0000000000000" "dinfinity False = 0x7FF0000000000000"
  "isnan 0xFFF8000000000000"
  by code_simp+

lemma finite_flags_of_samples:
  "isfinite (double_of_int 1)" "\<not> isnan (double_of_int 1)" "\<not> isinf (double_of_int 1)"
  "isfinite 0x3C90000000000000"
  "isfinite 0x3FEFFFFFFFFFFFFF" "isfinite 0x7FEFFFFFFFFFFFFF" "isfinite 0xFFEFFFFFFFFFFFFF"
  "\<not> dval 0x7FEFFFFFFFFFFFFF < dval 0xFFEFFFFFFFFFFFFF"
  by code_simp+

lemma tie_of_samples:
  "dval 0x3FEFFFFFFFFFFFFF \<noteq> dval (double_of_int 1)"
  "\<bar>dval 0x3FEFFFFFFFFFFFFF - (dval (double_of_int 1) - dval 0x3C90000000000000)\<bar> =
     \<bar>dval (double_of_int 1) - (dval (double_of_int 1) - dval 0x3C90000000000000)\<bar>"
  "dzero False = 0"
  by code_simp+

lemma fsub_inf_right_sign:
  assumes "isfinite a" "isinf b"
  shows "isinf (fsub nan a b) \<and> dsign (fsub nan a b) = (\<not> dsign b)"
  using assms by (simp add: fsub_inf_right fneg_simps fneg_fields)

text \<open>
  C2. With \<open>b\<close> on top of the stack and \<open>a\<close> below it, \<open>SUB\<close> pops both and pushes
  \<open>a - b\<close> in their place, the difference of IEEE-754 binary64 in the rounding mode to
  nearest, which is, with values in units of \<open>2 ^ - 1074\<close>:
  \<^item> a NaN when an operand is a NaN or both are infinities of the same sign (on x86-64
    the default NaN \<open>FFF8000000000000\<close> for \<open>inf - inf\<close>);
  \<^item> \<open>a\<close> when \<open>a\<close> is an infinity and \<open>b\<close> is a number other than that infinity;
  \<^item> the infinity of the sign opposite to \<open>b\<close> when \<open>a\<close> is finite and \<open>b\<close> an infinity;
  \<^item> for finite \<open>a\<close> and \<open>b\<close>, when the result is finite: a finite double nearest to
    the exact difference \<open>dval a - dval b\<close> (no finite double \<open>d\<close> is nearer), whose
    fraction field is even when a finite double of another value is as near, and which
    is, when the exact difference is 0, the zero whose sign bit is set only if \<open>a\<close> is
    \<open>-0\<close> and \<open>b\<close> is \<open>+0\<close>;
  \<^item> for finite \<open>a\<close> and \<open>b\<close> otherwise: the infinity of the sign of the exact
    difference, whose magnitude is then at least \<open>2 ^ 2098 - 2 ^ 2044\<close>.

  The program \<open>[DCONST_2, DCONST_1, SUB, PRINT, HALT]\<close>, run from \<open>pc = 0\<close>, prints
  \<open>1.000000\<close> and a newline and returns \<open>EXIT_SUCCESS\<close>.
\<close>

theorem SUB_pushes_a_minus_b:
  "(NCODE vm = Inr (SUB, vm') \<and> 1 \<le> sp vm \<and> sp vm < STACK_SIZE \<and>
      stack vm (sp vm - 1) = a \<and> stack vm (sp vm) = b \<longrightarrow>
    step bld vm =
      Break (vm'\<lparr>sp := sp vm - 1,
        stack := (stack vm)(sp vm - 1 := fsub (nan_result bld) a b)\<rparr>) []) \<and>
   (isnan a1 \<or> isnan b1 \<or> (isinf a1 \<and> isinf b1 \<and> dsign a1 = dsign b1) \<longrightarrow>
      isnan (fsub nan a1 b1)) \<and>
   fsub (nan_result x86_64) 0x7FF0000000000000 0x7FF0000000000000 = 0xFFF8000000000000 \<and>
   (isinf a2 \<and> \<not> isnan b2 \<and> \<not> (isinf b2 \<and> dsign a2 = dsign b2) \<longrightarrow>
      fsub nan a2 b2 = a2) \<and>
   (isfinite a3 \<and> isinf b3 \<longrightarrow>
      isinf (fsub nan a3 b3) \<and> dsign (fsub nan a3 b3) = (\<not> dsign b3)) \<and>
   (isfinite a4 \<and> isfinite b4 \<and> isfinite (fsub nan a4 b4) \<and> isfinite d \<longrightarrow>
      \<bar>dval (fsub nan a4 b4) - (dval a4 - dval b4)\<bar> \<le> \<bar>dval d - (dval a4 - dval b4)\<bar>) \<and>
   (isfinite a5 \<and> isfinite b5 \<and> \<not> isfinite (fsub nan a5 b5) \<longrightarrow>
      fsub nan a5 b5 = dinfinity (dval a5 < dval b5) \<and>
      2 ^ 2098 - 2 ^ 2044 \<le> \<bar>dval a5 - dval b5\<bar>) \<and>
   (isfinite a6 \<and> isfinite b6 \<and> isfinite (fsub nan a6 b6) \<and> isfinite d6 \<and>
    dval d6 \<noteq> dval (fsub nan a6 b6) \<and>
    \<bar>dval d6 - (dval a6 - dval b6)\<bar> = \<bar>dval (fsub nan a6 b6) - (dval a6 - dval b6)\<bar> \<longrightarrow>
      even (dfrac (fsub nan a6 b6))) \<and>
   (isfinite a7 \<and> isfinite b7 \<and> dval a7 = dval b7 \<longrightarrow>
      fsub nan a7 b7 = dzero (dsign a7 \<and> \<not> dsign b7)) \<and>
   (\<exists>vm. run bld (newVM bytecode mem) =
      Some (Exited EXIT_SUCCESS vm (''1.000000'' @ newline)) \<and> pc vm = 5)"
proof (intro conjI impI)
  assume "NCODE vm = Inr (SUB, vm') \<and> 1 \<le> sp vm \<and> sp vm < STACK_SIZE \<and>
      stack vm (sp vm - 1) = a \<and> stack vm (sp vm) = b"
  then show "step bld vm =
      Break (vm'\<lparr>sp := sp vm - 1,
        stack := (stack vm)(sp vm - 1 := fsub (nan_result bld) a b)\<rparr>) []"
    using step_SUB [of vm vm' a b bld] by blast
next
  assume "isnan a1 \<or> isnan b1 \<or> (isinf a1 \<and> isinf b1 \<and> dsign a1 = dsign b1)"
  then show "isnan (fsub nan a1 b1)"
    by (rule fsub_nan)
next
  show "fsub (nan_result x86_64) 0x7FF0000000000000 0x7FF0000000000000 = 0xFFF8000000000000"
    by (simp add: x86_64_def host_build_simps fsub_inf_inf_sse2)
next
  assume "isinf a2 \<and> \<not> isnan b2 \<and> \<not> (isinf b2 \<and> dsign a2 = dsign b2)"
  then show "fsub nan a2 b2 = a2"
    using fsub_inf_left [of a2 b2 nan] by blast
next
  assume h: "isfinite a3 \<and> isinf b3"
  then show "isinf (fsub nan a3 b3)" "dsign (fsub nan a3 b3) = (\<not> dsign b3)"
    using fsub_inf_right_sign [of a3 b3 nan] by simp_all
next
  assume "isfinite a4 \<and> isfinite b4 \<and> isfinite (fsub nan a4 b4) \<and> isfinite d"
  then show "\<bar>dval (fsub nan a4 b4) - (dval a4 - dval b4)\<bar> \<le> \<bar>dval d - (dval a4 - dval b4)\<bar>"
    using fsub_nearest [of a4 b4 nan d] by blast
next
  assume h: "isfinite a5 \<and> isfinite b5 \<and> \<not> isfinite (fsub nan a5 b5)"
  then show "fsub nan a5 b5 = dinfinity (dval a5 < dval b5)"
      "2 ^ 2098 - 2 ^ 2044 \<le> \<bar>dval a5 - dval b5\<bar>"
    using fsub_overflow [of a5 b5 nan] by blast+
next
  assume "isfinite a6 \<and> isfinite b6 \<and> isfinite (fsub nan a6 b6) \<and> isfinite d6 \<and>
    dval d6 \<noteq> dval (fsub nan a6 b6) \<and>
    \<bar>dval d6 - (dval a6 - dval b6)\<bar> = \<bar>dval (fsub nan a6 b6) - (dval a6 - dval b6)\<bar>"
  then show "even (dfrac (fsub nan a6 b6))"
    using fsub_ties_to_even [of a6 b6 nan d6] by blast
next
  assume "isfinite a7 \<and> isfinite b7 \<and> dval a7 = dval b7"
  then show "fsub nan a7 b7 = dzero (dsign a7 \<and> \<not> dsign b7)"
    using fsub_zero [of a7 b7 nan] by blast
next
  show "\<exists>vm. run bld (newVM bytecode mem) =
      Some (Exited EXIT_SUCCESS vm (''1.000000'' @ newline)) \<and> pc vm = 5"
    using run_bytecode [of bld mem] by simp
qed

text \<open>
  The witness, in the build for x86-64: the \<open>SUB\<close> of \<open>bytecode\<close> at \<open>pc = 2\<close> with 2
  and 1 on the stack; \<open>inf - inf\<close>; \<open>inf - 1\<close>; \<open>1 - inf\<close>; \<open>1 - 2 ^ - 54\<close>, which is
  1, as near to the exact difference as \<open>1 - 2 ^ - 53\<close> and with an even fraction
  field; the greatest finite double minus its negation, which is \<open>inf\<close>; and \<open>1 - 1\<close>,
  which is \<open>+0\<close>.
\<close>

theorem SUB_pushes_a_minus_b_witness:
  "NCODE \<lparr>r1 = 0, r2 = 0, code = bytecode,
      stack = zero_block(0 := double_of_int 2, 1 := double_of_int 1), pc = 2, sp = 1\<rparr> =
     Inr (SUB, \<lparr>r1 = 0, r2 = 0, code = bytecode,
      stack = zero_block(0 := double_of_int 2, 1 := double_of_int 1), pc = 3, sp = 1\<rparr>) \<and>
   step x86_64 \<lparr>r1 = 0, r2 = 0, code = bytecode,
      stack = zero_block(0 := double_of_int 2, 1 := double_of_int 1), pc = 2, sp = 1\<rparr> =
     Break \<lparr>r1 = 0, r2 = 0, code = bytecode,
      stack = zero_block(0 := double_of_int 1, 1 := double_of_int 1), pc = 3, sp = 0\<rparr> [] \<and>
   isinf 0x7FF0000000000000 \<and>
   isnan (fsub sse2_nan 0x7FF0000000000000 0x7FF0000000000000) \<and>
   \<not> isnan (double_of_int 1) \<and> \<not> isinf (double_of_int 1) \<and>
   fsub sse2_nan 0x7FF0000000000000 (double_of_int 1) = 0x7FF0000000000000 \<and>
   isfinite (double_of_int 1) \<and>
   isinf (fsub sse2_nan (double_of_int 1) 0x7FF0000000000000) \<and>
   dsign (fsub sse2_nan (double_of_int 1) 0x7FF0000000000000) \<and>
   isfinite 0x3C90000000000000 \<and> isfinite 0x3FEFFFFFFFFFFFFF \<and>
   fsub sse2_nan (double_of_int 1) 0x3C90000000000000 = double_of_int 1 \<and>
   \<bar>dval (double_of_int 1) - (dval (double_of_int 1) - dval 0x3C90000000000000)\<bar> \<le>
     \<bar>dval 0x3FEFFFFFFFFFFFFF - (dval (double_of_int 1) - dval 0x3C90000000000000)\<bar> \<and>
   isfinite 0x7FEFFFFFFFFFFFFF \<and> isfinite 0xFFEFFFFFFFFFFFFF \<and>
   fsub sse2_nan 0x7FEFFFFFFFFFFFFF 0xFFEFFFFFFFFFFFFF = 0x7FF0000000000000 \<and>
   2 ^ 2098 - 2 ^ 2044 \<le> \<bar>dval 0x7FEFFFFFFFFFFFFF - dval 0xFFEFFFFFFFFFFFFF\<bar> \<and>
   dval 0x3FEFFFFFFFFFFFFF \<noteq> dval (double_of_int 1) \<and>
   \<bar>dval 0x3FEFFFFFFFFFFFFF - (dval (double_of_int 1) - dval 0x3C90000000000000)\<bar> =
     \<bar>dval (double_of_int 1) - (dval (double_of_int 1) - dval 0x3C90000000000000)\<bar> \<and>
   even (dfrac (double_of_int 1)) \<and>
   fsub sse2_nan (double_of_int 1) (double_of_int 1) = 0"
proof -
  let ?vm = "\<lparr>r1 = 0, r2 = 0, code = bytecode,
      stack = zero_block(0 := double_of_int 2, 1 := double_of_int 1), pc = 2, sp = 1\<rparr>"
  let ?vm' = "\<lparr>r1 = 0, r2 = 0, code = bytecode,
      stack = zero_block(0 := double_of_int 2, 1 := double_of_int 1), pc = 3, sp = 1\<rparr>"
  let ?inf = "0x7FF0000000000000 :: double"
  let ?one = "double_of_int 1"
  have fetch: "NCODE ?vm = Inr (SUB, ?vm')"
    by (simp add: NCODE_def bytecode_def INT_MAX_def)
  have nan: "nan_result x86_64 = sse2_nan"
    by (simp add: x86_64_def host_build_simps)
  show ?thesis
    using SUB_pushes_a_minus_b
      [of ?vm ?vm' "double_of_int 2" "double_of_int 1" x86_64 ?inf ?inf sse2_nan
        ?inf ?one ?one ?inf ?one "0x3C90000000000000" "0x3FEFFFFFFFFFFFFF"
        "0x7FEFFFFFFFFFFFFF" "0xFFEFFFFFFFFFFFFF"
        ?one "0x3C90000000000000" "0x3FEFFFFFFFFFFFFF" ?one ?one zero_block]
      fetch
    by (simp add: STACK_SIZE_def nan fsub_2_1 fsub_tie fsub_max inf_flags
        finite_flags_of_samples tie_of_samples fun_upd_twist)
qed

section \<open>Division by zero\<close>

lemma printf_d_3: "printf_d 3 = ''3''"
  by code_simp

lemma step_DIV_zero:
  assumes "NCODE vm = Inr (DIV, vm')" "1 \<le> sp vm" "sp vm < STACK_SIZE"
    "feq (stack vm (sp vm)) (double_of_int 0)"
  shows "step bld vm =
    Return EXIT_FAILURE (vm'\<lparr>sp := sp vm - 2\<rparr>)
      (''RuntimeException: Division by zero @ PC = '' @ printf_d (pc vm') @ newline)"
  using assms NCODE_Inr [OF assms(1)]
  by (simp add: step_def and_then_def POP_def STACK_SIZE_def opcode_defs Let_def)

lemma step_DIV_cases:
  assumes "NCODE vm = Inr (DIV, vm0)"
  shows "(\<exists>u. step bld vm = Undefined u) \<or>
    (feq (stack vm (sp vm)) (double_of_int 0) \<and>
     step bld vm = Return EXIT_FAILURE (vm\<lparr>pc := pc vm + 1, sp := sp vm - 2\<rparr>)
       (''RuntimeException: Division by zero @ PC = '' @ printf_d (pc vm + 1) @ newline)) \<or>
    (\<exists>vm'. step bld vm = Break vm' [])"
  using NCODE_Inr [OF assms] assms
  by (simp add: step_def and_then_def push_break_def PUSH_def POP_def STACK_SIZE_def
      opcode_defs Let_def)

lemma run_scenario3:
  "run bld (newVM scenario3 mem) =
     Some (Exited EXIT_FAILURE
       \<lparr>r1 = double_of_int 0, r2 = double_of_int 0, code = scenario3,
         stack = mem(0 := double_of_int 1, 1 := double_of_int 0), pc = 3, sp = - 1\<rparr>
       (''RuntimeException: Division by zero @ PC = 3'' @ newline))"
proof -
  have "turns 3 bld (newVM scenario3 mem) [] =
     Return EXIT_FAILURE
       \<lparr>r1 = double_of_int 0, r2 = double_of_int 0, code = scenario3,
         stack = mem(0 := double_of_int 1, 1 := double_of_int 0), pc = 3, sp = - 1\<rparr>
       (''RuntimeException: Division by zero @ PC = 3'' @ newline)"
    by (simp add: turns_numeral turns_1 newVM_def scenario3_def vm_defs opcode_defs
        feq_0_0 printf_d_3)
  then show ?thesis
    unfolding run_def by (rule run_loop_Return)
qed

text \<open>
  C3. When \<open>DIV\<close> is fetched, both operands are on the stack and the divisor on top
  compares equal to 0, the run returns \<open>EXIT_FAILURE\<close> at once: the output so far is
  followed by the diagnostic with the program counter and nothing else, and the stack
  array is as it was (no quotient is stored). The program
  \<open>[DCONST_1, DCONST_0, DIV, PRINT, HALT]\<close> ends so, and its whole output is the
  diagnostic: \<open>PRINT\<close> is never reached.
\<close>

theorem DIV_by_zero_fails:
  "(NCODE vm = Inr (DIV, vm') \<and> 1 \<le> sp vm \<and> sp vm < STACK_SIZE \<and>
      feq (stack vm (sp vm)) (double_of_int 0) \<longrightarrow>
    run_loop bld vm out =
      Some (Exited EXIT_FAILURE (vm'\<lparr>sp := sp vm - 2\<rparr>)
        (out @ ''RuntimeException: Division by zero @ PC = '' @ printf_d (pc vm') @
           newline))) \<and>
   (\<exists>vm. run bld (newVM [DCONST_1, DCONST_0, DIV, PRINT, HALT] mem) =
      Some (Exited EXIT_FAILURE vm
        (''RuntimeException: Division by zero @ PC = 3'' @ newline)))"
proof (intro conjI impI)
  assume h: "NCODE vm = Inr (DIV, vm') \<and> 1 \<le> sp vm \<and> sp vm < STACK_SIZE \<and>
      feq (stack vm (sp vm)) (double_of_int 0)"
  then have "turns 1 bld vm out =
      Return EXIT_FAILURE (vm'\<lparr>sp := sp vm - 2\<rparr>)
        (out @ ''RuntimeException: Division by zero @ PC = '' @ printf_d (pc vm') @ newline)"
    by (simp add: turns_1 step_DIV_zero)
  then show "run_loop bld vm out =
      Some (Exited EXIT_FAILURE (vm'\<lparr>sp := sp vm - 2\<rparr>)
        (out @ ''RuntimeException: Division by zero @ PC = '' @ printf_d (pc vm') @
           newline))"
    by (rule run_loop_Return)
next
  show "\<exists>vm. run bld (newVM [DCONST_1, DCONST_0, DIV, PRINT, HALT] mem) =
      Some (Exited EXIT_FAILURE vm
        (''RuntimeException: Division by zero @ PC = 3'' @ newline))"
    using run_scenario3 [of bld mem] by (simp add: scenario3_def)
qed

theorem DIV_by_zero_fails_witness:
  "NCODE \<lparr>r1 = 0, r2 = 0, code = scenario3,
      stack = zero_block(0 := double_of_int 1, 1 := double_of_int 0), pc = 2, sp = 1\<rparr> =
     Inr (DIV, \<lparr>r1 = 0, r2 = 0, code = scenario3,
      stack = zero_block(0 := double_of_int 1, 1 := double_of_int 0), pc = 3, sp = 1\<rparr>) \<and>
   feq (double_of_int 0) (double_of_int 0) \<and>
   run_loop x86_64 \<lparr>r1 = 0, r2 = 0, code = scenario3,
      stack = zero_block(0 := double_of_int 1, 1 := double_of_int 0), pc = 2, sp = 1\<rparr> [] =
     Some (Exited EXIT_FAILURE \<lparr>r1 = 0, r2 = 0, code = scenario3,
      stack = zero_block(0 := double_of_int 1, 1 := double_of_int 0), pc = 3, sp = - 1\<rparr>
      (''RuntimeException: Division by zero @ PC = 3'' @ newline))"
proof -
  let ?vm = "\<lparr>r1 = 0, r2 = 0, code = scenario3,
      stack = zero_block(0 := double_of_int 1, 1 := double_of_int 0), pc = 2, sp = 1\<rparr>"
  let ?vm' = "\<lparr>r1 = 0, r2 = 0, code = scenario3,
      stack = zero_block(0 := double_of_int 1, 1 := double_of_int 0), pc = 3, sp = 1\<rparr>"
  have fetch: "NCODE ?vm = Inr (DIV, ?vm')"
    by (simp add: NCODE_def scenario3_def INT_MAX_def)
  show ?thesis
    using DIV_by_zero_fails [of ?vm ?vm' x86_64 "[]" zero_block] fetch
    by (simp add: STACK_SIZE_def feq_0_0 printf_d_3)
qed

text \<open>
  C9. Whenever the turn of the loop that fetched \<open>DIV\<close> returns \<open>EXIT_FAILURE\<close>, the
  divisor was zero, the machine at the return has \<open>sp\<close> two below its value before the
  instruction, the same stack array (no quotient stored) and the same registers, and
  the diagnostic prints the offset of the byte after the \<open>DIV\<close> opcode, which is the
  program counter at the return.
\<close>

theorem DIV_failure_state:
  "NCODE vm = Inr (DIV, vm0) \<and> step bld vm = Return EXIT_FAILURE vm' s \<longrightarrow>
     feq (stack vm (sp vm)) (double_of_int 0) \<and>
     sp vm' = sp vm - 2 \<and> stack vm' = stack vm \<and> r1 vm' = r1 vm \<and> r2 vm' = r2 vm \<and>
     code vm' = code vm \<and> pc vm' = pc vm + 1 \<and>
     s = ''RuntimeException: Division by zero @ PC = '' @ printf_d (pc vm + 1) @ newline"
proof
  assume h: "NCODE vm = Inr (DIV, vm0) \<and> step bld vm = Return EXIT_FAILURE vm' s"
  then show "feq (stack vm (sp vm)) (double_of_int 0) \<and>
     sp vm' = sp vm - 2 \<and> stack vm' = stack vm \<and> r1 vm' = r1 vm \<and> r2 vm' = r2 vm \<and>
     code vm' = code vm \<and> pc vm' = pc vm + 1 \<and>
     s = ''RuntimeException: Division by zero @ PC = '' @ printf_d (pc vm + 1) @ newline"
    using step_DIV_cases [of vm vm0 bld] by auto
qed

theorem DIV_failure_state_witness:
  "NCODE \<lparr>r1 = 7, r2 = 9, code = scenario3,
      stack = zero_block(0 := double_of_int 1, 1 := double_of_int 0), pc = 2, sp = 1\<rparr> =
     Inr (DIV, \<lparr>r1 = 7, r2 = 9, code = scenario3,
      stack = zero_block(0 := double_of_int 1, 1 := double_of_int 0), pc = 3, sp = 1\<rparr>) \<and>
   step x86_64 \<lparr>r1 = 7, r2 = 9, code = scenario3,
      stack = zero_block(0 := double_of_int 1, 1 := double_of_int 0), pc = 2, sp = 1\<rparr> =
     Return EXIT_FAILURE \<lparr>r1 = 7, r2 = 9, code = scenario3,
      stack = zero_block(0 := double_of_int 1, 1 := double_of_int 0), pc = 3, sp = - 1\<rparr>
      (''RuntimeException: Division by zero @ PC = 3'' @ newline) \<and>
   sp \<lparr>r1 = 7, r2 = 9, code = scenario3,
      stack = zero_block(0 := double_of_int 1, 1 := double_of_int 0), pc = 3, sp = - 1\<rparr> =
     sp \<lparr>r1 = 7, r2 = 9, code = scenario3,
      stack = zero_block(0 := double_of_int 1, 1 := double_of_int 0), pc = 2, sp = 1\<rparr> - 2"
proof -
  let ?vm = "\<lparr>r1 = 7, r2 = 9, code = scenario3,
      stack = zero_block(0 := double_of_int 1, 1 := double_of_int 0), pc = 2, sp = 1\<rparr>"
  let ?fetched = "\<lparr>r1 = 7, r2 = 9, code = scenario3,
      stack = zero_block(0 := double_of_int 1, 1 := double_of_int 0), pc = 3, sp = 1\<rparr>"
  let ?vm' = "\<lparr>r1 = 7, r2 = 9, code = scenario3,
      stack = zero_block(0 := double_of_int 1, 1 := double_of_int 0), pc = 3, sp = - 1\<rparr>"
  let ?s = "''RuntimeException: Division by zero @ PC = 3'' @ newline"
  have fetch: "NCODE ?vm = Inr (DIV, ?fetched)"
    by (simp add: NCODE_def scenario3_def INT_MAX_def)
  have ret: "step x86_64 ?vm = Return EXIT_FAILURE ?vm' ?s"
    by (simp add: scenario3_def vm_defs opcode_defs feq_0_0 printf_d_3)
  show ?thesis
    using DIV_failure_state [of ?vm ?fetched x86_64 ?vm' ?s] fetch ret by simp
qed

section \<open>Bytes that are no opcode\<close>

lemma printf_x_ff: "printf_x 0xFF = ''ff''"
  by code_simp

lemma step_invalid:
  assumes "NCODE vm = Inr (opcode, vm')"
    and "opcode \<notin> {HALT, DCONST_M1, DCONST_0, DCONST_1, DCONST_2, DCONST, JEQ, JNE, JLT,
      JLE, JGT, JGE, ADD, SUB, MUL, DIV, NEG, NOP, PRINT, ST1, LD1, ST2, LD2}"
  shows "step bld vm =
    Return EXIT_FAILURE vm' (''InvalidOpcodeError: '' @ printf_x opcode @ newline)"
  using assms by (simp add: step_def and_then_def)

lemma run_scenario4:
  "run bld (newVM scenario4 mem) =
     Some (Exited EXIT_FAILURE
       \<lparr>r1 = double_of_int 0, r2 = double_of_int 0, code = scenario4, stack = mem,
         pc = 1, sp = - 1\<rparr>
       (''InvalidOpcodeError: ff'' @ newline))"
proof -
  have "turns 1 bld (newVM scenario4 mem) [] =
     Return EXIT_FAILURE
       \<lparr>r1 = double_of_int 0, r2 = double_of_int 0, code = scenario4, stack = mem,
         pc = 1, sp = - 1\<rparr>
       (''InvalidOpcodeError: ff'' @ newline)"
    by (simp add: turns_1 newVM_def scenario4_def vm_defs opcode_defs printf_x_ff)
  then show ?thesis
    unfolding run_def by (rule run_loop_Return)
qed

text \<open>
  C4. When the byte fetched is none of the 23 opcodes, the run returns \<open>EXIT_FAILURE\<close>
  at once, and the output so far is followed by the diagnostic with the byte in
  hexadecimal. The program \<open>[0xFF, HALT]\<close> ends so with the diagnostic for \<open>ff\<close>, at
  \<open>pc = 1\<close>: the \<open>HALT\<close> at offset 1 is never fetched.
\<close>

theorem invalid_opcode_fails:
  "(NCODE vm = Inr (opcode, vm') \<and>
    opcode \<notin> {HALT, DCONST_M1, DCONST_0, DCONST_1, DCONST_2, DCONST, JEQ, JNE, JLT,
      JLE, JGT, JGE, ADD, SUB, MUL, DIV, NEG, NOP, PRINT, ST1, LD1, ST2, LD2} \<longrightarrow>
    run_loop bld vm out =
      Some (Exited EXIT_FAILURE vm'
        (out @ ''InvalidOpcodeError: '' @ printf_x opcode @ newline))) \<and>
   (\<exists>vm. run bld (newVM [0xFF, HALT] mem) =
      Some (Exited EXIT_FAILURE vm (''InvalidOpcodeError: ff'' @ newline)) \<and> pc vm = 1)"
proof (intro conjI impI)
  assume h: "NCODE vm = Inr (opcode, vm') \<and>
    opcode \<notin> {HALT, DCONST_M1, DCONST_0, DCONST_1, DCONST_2, DCONST, JEQ, JNE, JLT,
      JLE, JGT, JGE, ADD, SUB, MUL, DIV, NEG, NOP, PRINT, ST1, LD1, ST2, LD2}"
  then have "step bld vm =
      Return EXIT_FAILURE vm' (''InvalidOpcodeError: '' @ printf_x opcode @ newline)"
    using step_invalid [of vm opcode vm' bld] by blast
  then have "turns 1 bld vm out =
      Return EXIT_FAILURE vm' (out @ ''InvalidOpcodeError: '' @ printf_x opcode @ newline)"
    by (simp add: turns_1)
  then show "run_loop bld vm out =
      Some (Exited EXIT_FAILURE vm'
        (out @ ''InvalidOpcodeError: '' @ printf_x opcode @ newline))"
    by (rule run_loop_Return)
next
  show "\<exists>vm. run bld (newVM [0xFF, HALT] mem) =
      Some (Exited EXIT_FAILURE vm (''InvalidOpcodeError: ff'' @ newline)) \<and> pc vm = 1"
    using run_scenario4 [of bld mem] by (simp add: scenario4_def)
qed

theorem invalid_opcode_fails_witness:
  "NCODE (newVM scenario4 zero_block) = Inr (0xFF, (newVM scenario4 zero_block)\<lparr>pc := 1\<rparr>) \<and>
   (0xFF :: byte) \<notin> {HALT, DCONST_M1, DCONST_0, DCONST_1, DCONST_2, DCONST, JEQ, JNE, JLT,
      JLE, JGT, JGE, ADD, SUB, MUL, DIV, NEG, NOP, PRINT, ST1, LD1, ST2, LD2} \<and>
   run_loop x86_64 (newVM scenario4 zero_block) [] =
     Some (Exited EXIT_FAILURE ((newVM scenario4 zero_block)\<lparr>pc := 1\<rparr>)
       (''InvalidOpcodeError: ff'' @ newline))"
proof -
  have fetch: "NCODE (newVM scenario4 zero_block) =
      Inr (0xFF, (newVM scenario4 zero_block)\<lparr>pc := 1\<rparr>)"
    by (simp add: NCODE_def newVM_def scenario4_def INT_MAX_def)
  have other: "(0xFF :: byte) \<notin> {HALT, DCONST_M1, DCONST_0, DCONST_1, DCONST_2, DCONST,
      JEQ, JNE, JLT, JLE, JGT, JGE, ADD, SUB, MUL, DIV, NEG, NOP, PRINT, ST1, LD1, ST2, LD2}"
    by (simp add: opcode_defs)
  show ?thesis
    using invalid_opcode_fails
      [of "newVM scenario4 zero_block" "0xFF" "(newVM scenario4 zero_block)\<lparr>pc := 1\<rparr>"
        x86_64 "[]" zero_block]
      fetch other
    by (simp add: printf_x_ff)
qed

section \<open>Double constants in the instruction stream\<close>

lemma uint_object_value8:
  "uint (object_value False [b0, b1, b2, b3, b4, b5, b6, b7] :: 64 word) =
     uint b0 * 2 ^ 56 + uint b1 * 2 ^ 48 + uint b2 * 2 ^ 40 + uint b3 * 2 ^ 32 +
     uint b4 * 2 ^ 24 + uint b5 * 2 ^ 16 + uint b6 * 2 ^ 8 + uint b7"
proof -
  let ?x = "uint b0 * 2 ^ 56 + uint b1 * 2 ^ 48 + uint b2 * 2 ^ 40 + uint b3 * 2 ^ 32 +
     uint b4 * 2 ^ 24 + uint b5 * 2 ^ 16 + uint b6 * 2 ^ 8 + uint b7"
  have bound: "0 \<le> uint b \<and> uint b \<le> 255" for b :: byte
    using uint_bounded [of b] by simp
  have "(object_value False [b0, b1, b2, b3, b4, b5, b6, b7] :: 64 word) = word_of_int ?x"
    by (simp add: object_value_def algebra_simps)
  moreover have "0 \<le> ?x"
    using bound [of b0] bound [of b1] bound [of b2] bound [of b3]
      bound [of b4] bound [of b5] bound [of b6] bound [of b7] by simp
  moreover have "?x < 2 ^ 64"
    using bound [of b0] bound [of b1] bound [of b2] bound [of b3]
      bound [of b4] bound [of b5] bound [of b6] bound [of b7] by simp
  ultimately show ?thesis
    by (simp add: uint_word_of_int take_bit_int_eq_self del: of_int_add of_int_mult)
qed

lemma read_double_wire_value:
  assumes "LITTLE_ENDIAN bld = little_endian_host bld"
    and "take 8 (drop (nat (pc vm)) (code vm)) = bs" "length bs = 8" "0 \<le> pc vm"
    "pc vm + 8 \<le> INT_MAX"
  shows "read_double bld vm = Inr (object_value False bs, vm\<lparr>pc := pc vm + 8\<rparr>)"
proof -
  have "length (take 8 (drop (nat (pc vm)) (code vm))) = 8"
    using assms by simp
  then have "nat (pc vm) + 8 \<le> length (code vm)"
    by simp
  then have "pc vm + 8 \<le> int (length (code vm))"
    using assms(4) by linarith
  then have "memcpy_code vm 8 = Inr bs"
    using assms by (simp add: memcpy_code_def)
  then show ?thesis
    using assms by (simp add: read_double_wire [OF assms(1)])
qed

lemma step_DCONST:
  assumes "LITTLE_ENDIAN bld = little_endian_host bld"
    and "NCODE vm = Inr (DCONST, vm')"
    and "take 8 (drop (nat (pc vm')) (code vm)) = [b0, b1, b2, b3, b4, b5, b6, b7]"
    and "pc vm' + 8 \<le> INT_MAX" "- 1 \<le> sp vm" "sp vm + 1 < STACK_SIZE"
  shows "step bld vm =
    Break (vm\<lparr>pc := pc vm + 9, sp := sp vm + 1,
      stack := (stack vm)(sp vm + 1 := object_value False [b0, b1, b2, b3, b4, b5, b6, b7])\<rparr>) []"
proof -
  have vm': "vm' = vm\<lparr>pc := pc vm + 1\<rparr>" "0 \<le> pc vm"
    using NCODE_Inr [OF assms(2)] by simp_all
  have "read_double bld vm' =
      Inr (object_value False [b0, b1, b2, b3, b4, b5, b6, b7], vm'\<lparr>pc := pc vm' + 8\<rparr>)"
    using assms vm' by (intro read_double_wire_value) simp_all
  then show ?thesis
    using assms vm'
    by (simp add: step_def and_then_def push_break_def PUSH_def STACK_SIZE_def opcode_defs
        Let_def)
qed

lemma wire_12_54:
  "object_value False [0x40, 0x29, 0x14, 0x7A, 0xE1, 0x47, 0xAE, 0x14] =
     (0x4029147AE147AE14 :: double)"
  by (simp add: object_value_def)

lemma printf_f_12_54: "printf_f 0x4029147AE147AE14 = ''12.540000''"
  by code_simp

lemma run_readmebytecode:
  assumes "LITTLE_ENDIAN bld = little_endian_host bld"
  shows "run bld (newVM readmebytecode mem) =
     Some (Exited EXIT_SUCCESS
       \<lparr>r1 = double_of_int 0, r2 = double_of_int 0, code = readmebytecode,
         stack = mem(0 := 0x4029147AE147AE14), pc = 11, sp = - 1\<rparr>
       (''12.540000'' @ newline))"
proof -
  have "turns 3 bld (newVM readmebytecode mem) [] =
     Return EXIT_SUCCESS
       \<lparr>r1 = double_of_int 0, r2 = double_of_int 0, code = readmebytecode,
         stack = mem(0 := 0x4029147AE147AE14), pc = 11, sp = - 1\<rparr>
       (''12.540000'' @ newline)"
    by (simp add: turns_numeral turns_1 newVM_def readmebytecode_def step_def and_then_def
        push_break_def NCODE_def PUSH_def POP_def memcpy_code_def STACK_SIZE_def INT_MAX_def
        Let_def read_double_wire [OF assms] opcode_defs wire_12_54 printf_f_12_54)
  then show ?thesis
    unfolding run_def by (rule run_loop_Return)
qed

text \<open>The same 8 bytes, read least significant byte first.\<close>

lemma reversed_12_54:
  "object_value True [0x40, 0x29, 0x14, 0x7A, 0xE1, 0x47, 0xAE, 0x14] =
     (0x14AE47E17A142940 :: double)"
  by (simp add: object_value_def)

lemma printf_f_reversed_12_54: "printf_f 0x14AE47E17A142940 = ''0.000000''"
  by code_simp

text \<open>
  C6, as the claim states it, fails: the value pushed depends on the build. On a
  little-endian host, in a build where \<open>LITTLE_ENDIAN\<close> is not defined, the 8 bytes
  are not swapped and the host reads them least significant byte first: the README
  program pushes the double with the pattern \<open>14AE47E17A142940\<close>, a number
  of the order of \<open>2 ^ - 693\<close>, and prints \<open>0.000000\<close>.
\<close>

theorem DCONST_without_macro:
  "step x86_64_no_macro (newVM readmebytecode zero_block) =
     Break \<lparr>r1 = double_of_int 0, r2 = double_of_int 0, code = readmebytecode,
       stack = zero_block(0 := 0x14AE47E17A142940), pc = 9, sp = 0\<rparr> [] \<and>
   run x86_64_no_macro (newVM readmebytecode zero_block) =
     Some (Exited EXIT_SUCCESS
       \<lparr>r1 = double_of_int 0, r2 = double_of_int 0, code = readmebytecode,
         stack = zero_block(0 := 0x14AE47E17A142940), pc = 11, sp = - 1\<rparr>
       (''0.000000'' @ newline))"
proof
  show "step x86_64_no_macro (newVM readmebytecode zero_block) =
     Break \<lparr>r1 = double_of_int 0, r2 = double_of_int 0, code = readmebytecode,
       stack = zero_block(0 := 0x14AE47E17A142940), pc = 9, sp = 0\<rparr> []"
    by (simp add: newVM_def readmebytecode_def vm_defs opcode_defs x86_64_no_macro_def
        reversed_12_54)
  have "turns 3 x86_64_no_macro (newVM readmebytecode zero_block) [] =
     Return EXIT_SUCCESS
       \<lparr>r1 = double_of_int 0, r2 = double_of_int 0, code = readmebytecode,
         stack = zero_block(0 := 0x14AE47E17A142940), pc = 11, sp = - 1\<rparr>
       (''0.000000'' @ newline)"
    by (simp add: turns_numeral turns_1 newVM_def readmebytecode_def vm_defs opcode_defs
        x86_64_no_macro_def reversed_12_54 printf_f_reversed_12_54)
  then show "run x86_64_no_macro (newVM readmebytecode zero_block) =
     Some (Exited EXIT_SUCCESS
       \<lparr>r1 = double_of_int 0, r2 = double_of_int 0, code = readmebytecode,
         stack = zero_block(0 := 0x14AE47E17A142940), pc = 11, sp = - 1\<rparr>
       (''0.000000'' @ newline))"
    unfolding run_def by (rule run_loop_Return)
qed

text \<open>
  C6, amended. In a build in which \<open>LITTLE_ENDIAN\<close> is defined and not 0 exactly when
  the host is little-endian: when \<open>DCONST\<close> is fetched and followed by the 8 bytes
  \<open>b0 ... b7\<close>, with room for one more value on the stack, the value pushed is the
  64-bit pattern whose most significant byte is \<open>b0\<close> and whose least significant byte
  is \<open>b7\<close>, on a little-endian host and on a big-endian host alike, and the program
  counter ends after the operand. In such a build the README program prints
  \<open>12.540000\<close> and returns \<open>EXIT_SUCCESS\<close>.
\<close>

theorem DCONST_pushes_wire_value:
  "(LITTLE_ENDIAN bld = little_endian_host bld \<and>
    NCODE vm = Inr (DCONST, vm') \<and>
    take 8 (drop (nat (pc vm')) (code vm)) = [b0, b1, b2, b3, b4, b5, b6, b7] \<and>
    pc vm' + 8 \<le> INT_MAX \<and> - 1 \<le> sp vm \<and> sp vm + 1 < STACK_SIZE \<longrightarrow>
    (\<exists>v. step bld vm =
        Break (vm\<lparr>pc := pc vm + 9, sp := sp vm + 1,
          stack := (stack vm)(sp vm + 1 := v)\<rparr>) [] \<and>
      uint v =
        uint b0 * 2 ^ 56 + uint b1 * 2 ^ 48 + uint b2 * 2 ^ 40 + uint b3 * 2 ^ 32 +
        uint b4 * 2 ^ 24 + uint b5 * 2 ^ 16 + uint b6 * 2 ^ 8 + uint b7)) \<and>
   (LITTLE_ENDIAN bld = little_endian_host bld \<longrightarrow>
    (\<exists>vm. run bld (newVM readmebytecode mem) =
      Some (Exited EXIT_SUCCESS vm (''12.540000'' @ newline))))"
proof (intro conjI impI)
  assume "LITTLE_ENDIAN bld = little_endian_host bld \<and>
    NCODE vm = Inr (DCONST, vm') \<and>
    take 8 (drop (nat (pc vm')) (code vm)) = [b0, b1, b2, b3, b4, b5, b6, b7] \<and>
    pc vm' + 8 \<le> INT_MAX \<and> - 1 \<le> sp vm \<and> sp vm + 1 < STACK_SIZE"
  then have "step bld vm =
      Break (vm\<lparr>pc := pc vm + 9, sp := sp vm + 1,
        stack := (stack vm)
          (sp vm + 1 := object_value False [b0, b1, b2, b3, b4, b5, b6, b7])\<rparr>) []"
    using step_DCONST [of bld vm vm' b0 b1 b2 b3 b4 b5 b6 b7] by blast
  then show "\<exists>v. step bld vm =
        Break (vm\<lparr>pc := pc vm + 9, sp := sp vm + 1,
          stack := (stack vm)(sp vm + 1 := v)\<rparr>) [] \<and>
      uint v =
        uint b0 * 2 ^ 56 + uint b1 * 2 ^ 48 + uint b2 * 2 ^ 40 + uint b3 * 2 ^ 32 +
        uint b4 * 2 ^ 24 + uint b5 * 2 ^ 16 + uint b6 * 2 ^ 8 + uint b7"
    using uint_object_value8 [of b0 b1 b2 b3 b4 b5 b6 b7] by blast
next
  assume "LITTLE_ENDIAN bld = little_endian_host bld"
  then show "\<exists>vm. run bld (newVM readmebytecode mem) =
      Some (Exited EXIT_SUCCESS vm (''12.540000'' @ newline))"
    using run_readmebytecode [of bld mem] by blast
qed

text \<open>
  The witness: the build for x86-64 with the macro defined, at the first turn of the
  README program and at its whole run.
\<close>

theorem DCONST_pushes_wire_value_witness:
  "LITTLE_ENDIAN x86_64 = little_endian_host x86_64 \<and>
   NCODE (newVM readmebytecode zero_block) =
     Inr (DCONST, (newVM readmebytecode zero_block)\<lparr>pc := 1\<rparr>) \<and>
   take 8 (drop 1 readmebytecode) = [0x40, 0x29, 0x14, 0x7A, 0xE1, 0x47, 0xAE, 0x14] \<and>
   (\<exists>v. step x86_64 (newVM readmebytecode zero_block) =
      Break ((newVM readmebytecode zero_block)\<lparr>pc := 9, sp := 0,
        stack := zero_block(0 := v)\<rparr>) [] \<and>
      uint v = 0x4029147AE147AE14) \<and>
   (\<exists>vm. run x86_64 (newVM readmebytecode zero_block) =
      Some (Exited EXIT_SUCCESS vm (''12.540000'' @ newline)))"
proof -
  let ?vm = "newVM readmebytecode zero_block"
  have matched: "LITTLE_ENDIAN x86_64 = little_endian_host x86_64"
    by (simp add: x86_64_def host_build_def)
  have fetch: "NCODE ?vm = Inr (DCONST, ?vm\<lparr>pc := 1\<rparr>)"
    by (simp add: NCODE_def newVM_def readmebytecode_def INT_MAX_def)
  have operand:
    "take 8 (drop 1 readmebytecode) = [0x40, 0x29, 0x14, 0x7A, 0xE1, 0x47, 0xAE, 0x14]"
    by (simp add: readmebytecode_def)
  show ?thesis
    using DCONST_pushes_wire_value
      [of x86_64 ?vm "?vm\<lparr>pc := 1\<rparr>" "0x40" "0x29" "0x14" "0x7A" "0xE1" "0x47" "0xAE" "0x14"
        zero_block]
      matched fetch operand
    by (simp add: newVM_def INT_MAX_def STACK_SIZE_def)
qed

section \<open>Conditional jumps\<close>

lemma uint_object_value4:
  "uint (object_value False [b0, b1, b2, b3] :: 32 word) =
     uint b0 * 2 ^ 24 + uint b1 * 2 ^ 16 + uint b2 * 2 ^ 8 + uint b3"
proof -
  let ?x = "uint b0 * 2 ^ 24 + uint b1 * 2 ^ 16 + uint b2 * 2 ^ 8 + uint b3"
  have bound: "0 \<le> uint b \<and> uint b \<le> 255" for b :: byte
    using uint_bounded [of b] by simp
  have "(object_value False [b0, b1, b2, b3] :: 32 word) = word_of_int ?x"
    by (simp add: object_value_def algebra_simps)
  moreover have "0 \<le> ?x"
    using bound [of b0] bound [of b1] bound [of b2] bound [of b3] by simp
  moreover have "?x < 2 ^ 32"
    using bound [of b0] bound [of b1] bound [of b2] bound [of b3] by simp
  ultimately show ?thesis
    by (simp add: uint_word_of_int take_bit_int_eq_self del: of_int_add of_int_mult)
qed

text \<open>
  A jump that is taken sets \<open>pc\<close> to the \<open>int\<close> whose four bytes, most significant
  first, are the operand.
\<close>

lemma step_jump_taken:
  assumes "LITTLE_ENDIAN bld = little_endian_host bld"
    and "NCODE vm = Inr (opcode, vm')"
    and "(opcode = JEQ \<and> feq (r1 vm) (r2 vm)) \<or> (opcode = JNE \<and> fne (r1 vm) (r2 vm)) \<or>
         (opcode = JLT \<and> flt (r1 vm) (r2 vm)) \<or> (opcode = JLE \<and> fle (r1 vm) (r2 vm)) \<or>
         (opcode = JGT \<and> fgt (r1 vm) (r2 vm)) \<or> (opcode = JGE \<and> fge (r1 vm) (r2 vm))"
    and "take 4 (drop (nat (pc vm')) (code vm)) = [b0, b1, b2, b3]"
  shows "step bld vm =
    Break (vm\<lparr>pc := sint (object_value False [b0, b1, b2, b3] :: 32 word)\<rparr>) []"
proof -
  have vm': "vm' = vm\<lparr>pc := pc vm + 1\<rparr>" "0 \<le> pc vm"
    using NCODE_Inr [OF assms(2)] by simp_all
  have "length (take 4 (drop (nat (pc vm')) (code vm))) = 4"
    using assms(4) by simp
  then have "nat (pc vm') + 4 \<le> length (code vm)"
    by simp
  then have "pc vm' + 4 \<le> int (length (code vm))"
    using vm' by simp
  then have "memcpy_code vm' 4 = Inr [b0, b1, b2, b3]"
    using assms(4) vm' by (simp add: memcpy_code_def)
  then have "JMP bld vm' =
      Break (vm\<lparr>pc := sint (object_value False [b0, b1, b2, b3] :: 32 word)\<rparr>) []"
    using vm' by (simp add: JMP_wire [OF assms(1)] and_then_def)
  then show ?thesis
    using assms(2,3) vm'
    by (elim disjE conjE; simp add: step_def and_then_def opcode_defs)
qed

text \<open>
  A jump that is not taken does nothing after the fetch of the opcode: \<open>pc\<close> is left
  on the first byte of the operand.
\<close>

lemma step_jump_not_taken:
  assumes "NCODE vm = Inr (opcode, vm')"
    and "(opcode = JEQ \<and> \<not> feq (r1 vm) (r2 vm)) \<or> (opcode = JNE \<and> \<not> fne (r1 vm) (r2 vm)) \<or>
         (opcode = JLT \<and> \<not> flt (r1 vm) (r2 vm)) \<or> (opcode = JLE \<and> \<not> fle (r1 vm) (r2 vm)) \<or>
         (opcode = JGT \<and> \<not> fgt (r1 vm) (r2 vm)) \<or> (opcode = JGE \<and> \<not> fge (r1 vm) (r2 vm))"
  shows "step bld vm = Break (vm\<lparr>pc := pc vm + 1\<rparr>) []"
  using assms NCODE_Inr [OF assms(1)]
  by (elim disjE conjE; simp add: step_def and_then_def opcode_defs)

text \<open>
  C1. The claim: a conditional jump that is not taken leaves \<open>pc\<close> past its four operand
  bytes. The code: in \<open>[JNE, 0xFF, 0, 0, 0, HALT]\<close> the registers are both 0.0, so the
  \<open>JNE\<close> at offset 0 is not taken, and the turn ends with \<open>pc = 1\<close>, on the first operand
  byte. The next turn fetches that byte as an opcode: the run prints the diagnostic for
  \<open>ff\<close> and returns \<open>EXIT_FAILURE\<close>, and the \<open>HALT\<close> at offset 5 is not reached.
\<close>

theorem jump_not_taken_runs_operand:
  "step bld (newVM [JNE, 0xFF, 0, 0, 0, HALT] mem) =
     Break ((newVM [JNE, 0xFF, 0, 0, 0, HALT] mem)\<lparr>pc := 1\<rparr>) [] \<and>
   run bld (newVM [JNE, 0xFF, 0, 0, 0, HALT] mem) =
     Some (Exited EXIT_FAILURE ((newVM [JNE, 0xFF, 0, 0, 0, HALT] mem)\<lparr>pc := 2\<rparr>)
       (''InvalidOpcodeError: ff'' @ newline))"
proof
  show "step bld (newVM [JNE, 0xFF, 0, 0, 0, HALT] mem) =
      Break ((newVM [JNE, 0xFF, 0, 0, 0, HALT] mem)\<lparr>pc := 1\<rparr>) []"
    by (simp add: newVM_def vm_defs opcode_defs fne_def feq_0_0)
  have "turns 2 bld (newVM [JNE, 0xFF, 0, 0, 0, HALT] mem) [] =
      Return EXIT_FAILURE ((newVM [JNE, 0xFF, 0, 0, 0, HALT] mem)\<lparr>pc := 2\<rparr>)
        (''InvalidOpcodeError: ff'' @ newline)"
    by (simp add: turns_numeral turns_1 newVM_def vm_defs opcode_defs fne_def feq_0_0
        printf_x_ff)
  then show "run bld (newVM [JNE, 0xFF, 0, 0, 0, HALT] mem) =
      Some (Exited EXIT_FAILURE ((newVM [JNE, 0xFF, 0, 0, 0, HALT] mem)\<lparr>pc := 2\<rparr>)
        (''InvalidOpcodeError: ff'' @ newline))"
    unfolding run_def by (rule run_loop_Return)
qed

section \<open>The registers\<close>

lemmas turn_defs =
  step_def and_then_def push_break_def PUSH_def POP_def JMP_def read_double_def Let_def

lemma step_keeps_r1:
  assumes "NCODE vm = Inr (opcode, fetched)" "opcode \<noteq> ST1"
    and "step bld vm = Break vm' s \<or> step bld vm = Return status vm' s"
  shows "r1 vm' = r1 vm"
  using assms NCODE_Inr [OF assms(1)]
  by (auto simp: turn_defs split: if_splits sum.splits prod.splits)

lemma step_keeps_r2:
  assumes "NCODE vm = Inr (opcode, fetched)" "opcode \<noteq> ST2"
    and "step bld vm = Break vm' s \<or> step bld vm = Return status vm' s"
  shows "r2 vm' = r2 vm"
  using assms NCODE_Inr [OF assms(1)]
  by (auto simp: turn_defs split: if_splits sum.splits prod.splits)

lemma step_LD:
  assumes "NCODE vm = Inr (opcode, fetched)" "opcode = LD1 \<or> opcode = LD2"
    "- 1 \<le> sp vm" "sp vm + 1 < STACK_SIZE"
  shows "step bld vm =
    Break (fetched\<lparr>sp := sp vm + 1,
      stack := (stack vm)(sp vm + 1 := (if opcode = LD1 then r1 vm else r2 vm))\<rparr>) []"
  using assms NCODE_Inr [OF assms(1)]
  by (elim disjE; simp add: step_def and_then_def push_break_def PUSH_def STACK_SIZE_def
      opcode_defs Let_def)

lemma step_ST:
  assumes "NCODE vm = Inr (opcode, fetched)" "opcode = ST1 \<or> opcode = ST2"
  shows "step bld vm =
    (if 0 \<le> sp vm \<and> sp vm < STACK_SIZE then
       Break (if opcode = ST1 then fetched\<lparr>r1 := stack vm (sp vm), sp := sp vm - 1\<rparr>
              else fetched\<lparr>r2 := stack vm (sp vm), sp := sp vm - 1\<rparr>) []
     else Undefined (StackReadOutOfBounds (sp vm)))"
  using assms NCODE_Inr [OF assms(1)]
  by (elim disjE; simp add: step_def and_then_def POP_def STACK_SIZE_def opcode_defs Let_def)

text \<open>
  C7, as the claim states it, fails where it says that \<open>ST1\<close> and \<open>ST2\<close> always
  succeed: on a new machine the stack is empty, and the pop of \<open>ST1\<close> reads
  \<open>stack[-1]\<close>, outside the array.
\<close>

theorem ST1_on_empty_stack:
  "step x86_64 (newVM [ST1] zero_block) = Undefined (StackReadOutOfBounds (- 1))"
  by (simp add: newVM_def vm_defs opcode_defs)

text \<open>
  C7, amended. \<open>newVM\<close> sets both registers to 0.0 (the bit pattern 0). A turn of the
  loop that fetched an opcode other than \<open>ST1\<close> leaves \<open>r1\<close> as it was, and one that
  fetched an opcode other than \<open>ST2\<close> leaves \<open>r2\<close> as it was. \<open>LD1\<close> and \<open>LD2\<close>, with
  room on the stack, push the value of their register and change nothing but the stack
  and the program counter. \<open>ST1\<close> and \<open>ST2\<close> have no failure exit: with a value on the
  stack they store it in their register and go on; with an empty stack their pop reads
  outside the array, which the code does not check.
\<close>

theorem registers_frame:
  "r1 (newVM c mem) = double_of_int 0 \<and> r2 (newVM c mem) = double_of_int 0 \<and>
   double_of_int 0 = 0 \<and>
   (NCODE vm = Inr (opcode, fetched) \<and>
    (step bld vm = Break vm' s \<or> step bld vm = Return status vm' s) \<longrightarrow>
      (opcode \<noteq> ST1 \<longrightarrow> r1 vm' = r1 vm) \<and> (opcode \<noteq> ST2 \<longrightarrow> r2 vm' = r2 vm)) \<and>
   (NCODE vml = Inr (opl, fetchedl) \<and> (opl = LD1 \<or> opl = LD2) \<and>
    - 1 \<le> sp vml \<and> sp vml + 1 < STACK_SIZE \<longrightarrow>
      step bld vml =
        Break (fetchedl\<lparr>sp := sp vml + 1,
          stack := (stack vml)(sp vml + 1 := (if opl = LD1 then r1 vml else r2 vml))\<rparr>) []) \<and>
   (NCODE vms = Inr (ops, fetcheds) \<and> (ops = ST1 \<or> ops = ST2) \<longrightarrow>
      step bld vms =
        (if 0 \<le> sp vms \<and> sp vms < STACK_SIZE then
           Break (if ops = ST1 then fetcheds\<lparr>r1 := stack vms (sp vms), sp := sp vms - 1\<rparr>
                  else fetcheds\<lparr>r2 := stack vms (sp vms), sp := sp vms - 1\<rparr>) []
         else Undefined (StackReadOutOfBounds (sp vms))))"
proof (intro conjI impI)
  show "r1 (newVM c mem) = double_of_int 0" "r2 (newVM c mem) = double_of_int 0"
    by (simp_all add: newVM_def)
  show "double_of_int 0 = 0"
    by (rule double_of_int_0)
next
  assume "NCODE vm = Inr (opcode, fetched) \<and>
    (step bld vm = Break vm' s \<or> step bld vm = Return status vm' s)" "opcode \<noteq> ST1"
  then show "r1 vm' = r1 vm"
    using step_keeps_r1 [of vm opcode fetched bld vm' s status] by blast
next
  assume "NCODE vm = Inr (opcode, fetched) \<and>
    (step bld vm = Break vm' s \<or> step bld vm = Return status vm' s)" "opcode \<noteq> ST2"
  then show "r2 vm' = r2 vm"
    using step_keeps_r2 [of vm opcode fetched bld vm' s status] by blast
next
  assume "NCODE vml = Inr (opl, fetchedl) \<and> (opl = LD1 \<or> opl = LD2) \<and>
    - 1 \<le> sp vml \<and> sp vml + 1 < STACK_SIZE"
  then show "step bld vml =
      Break (fetchedl\<lparr>sp := sp vml + 1,
        stack := (stack vml)(sp vml + 1 := (if opl = LD1 then r1 vml else r2 vml))\<rparr>) []"
    using step_LD [of vml opl fetchedl bld] by blast
next
  assume "NCODE vms = Inr (ops, fetcheds) \<and> (ops = ST1 \<or> ops = ST2)"
  then show "step bld vms =
      (if 0 \<le> sp vms \<and> sp vms < STACK_SIZE then
         Break (if ops = ST1 then fetcheds\<lparr>r1 := stack vms (sp vms), sp := sp vms - 1\<rparr>
                else fetcheds\<lparr>r2 := stack vms (sp vms), sp := sp vms - 1\<rparr>) []
       else Undefined (StackReadOutOfBounds (sp vms)))"
    using step_ST [of vms ops fetcheds bld] by blast
qed

text \<open>
  The witness: \<open>[LD1, ST2]\<close> on a machine with \<open>r1 = 7\<close> and \<open>r2 = 9\<close>. \<open>LD1\<close> pushes
  7 and keeps both registers, \<open>ST2\<close> then stores the 7 in \<open>r2\<close>.
\<close>

theorem registers_frame_witness:
  "NCODE \<lparr>r1 = 7, r2 = 9, code = [LD1, ST2], stack = zero_block, pc = 0, sp = - 1\<rparr> =
     Inr (LD1, \<lparr>r1 = 7, r2 = 9, code = [LD1, ST2], stack = zero_block, pc = 1, sp = - 1\<rparr>) \<and>
   LD1 \<noteq> ST1 \<and> LD1 \<noteq> ST2 \<and>
   step x86_64 \<lparr>r1 = 7, r2 = 9, code = [LD1, ST2], stack = zero_block, pc = 0, sp = - 1\<rparr> =
     Break \<lparr>r1 = 7, r2 = 9, code = [LD1, ST2], stack = zero_block(0 := 7), pc = 1, sp = 0\<rparr>
       [] \<and>
   NCODE \<lparr>r1 = 7, r2 = 9, code = [LD1, ST2], stack = zero_block(0 := 7), pc = 1, sp = 0\<rparr> =
     Inr (ST2,
       \<lparr>r1 = 7, r2 = 9, code = [LD1, ST2], stack = zero_block(0 := 7), pc = 2, sp = 0\<rparr>) \<and>
   step x86_64 \<lparr>r1 = 7, r2 = 9, code = [LD1, ST2], stack = zero_block(0 := 7), pc = 1, sp = 0\<rparr> =
     Break \<lparr>r1 = 7, r2 = 7, code = [LD1, ST2], stack = zero_block(0 := 7), pc = 2, sp = - 1\<rparr>
       []"
proof -
  let ?a = "\<lparr>r1 = 7, r2 = 9, code = [LD1, ST2], stack = zero_block, pc = 0, sp = - 1\<rparr>"
  let ?af = "\<lparr>r1 = 7, r2 = 9, code = [LD1, ST2], stack = zero_block, pc = 1, sp = - 1\<rparr>"
  let ?b = "\<lparr>r1 = 7, r2 = 9, code = [LD1, ST2], stack = zero_block(0 := 7), pc = 1, sp = 0\<rparr>"
  let ?bf = "\<lparr>r1 = 7, r2 = 9, code = [LD1, ST2], stack = zero_block(0 := 7), pc = 2, sp = 0\<rparr>"
  have fetch_a: "NCODE ?a = Inr (LD1, ?af)"
    by (simp add: NCODE_def INT_MAX_def)
  have fetch_b: "NCODE ?b = Inr (ST2, ?bf)"
    by (simp add: NCODE_def INT_MAX_def)
  have ops: "LD1 \<noteq> ST1" "LD1 \<noteq> ST2" "ST2 \<noteq> ST1"
    by (simp_all add: opcode_defs)
  have turn_a: "step x86_64 ?a = Break ?b []"
    by (simp add: vm_defs opcode_defs)
  show ?thesis
    using registers_frame
      [of "[LD1, ST2]" zero_block ?a LD1 ?af x86_64 ?b "[]" EXIT_SUCCESS ?a LD1 ?af ?b ST2 ?bf]
      fetch_a fetch_b ops turn_a
    by (simp add: STACK_SIZE_def)
qed

section \<open>The bounds of the stack\<close>

lemma step_push_full:
  assumes "NCODE vm = Inr (opcode, fetched)"
    and "opcode \<in> {DCONST_M1, DCONST_0, DCONST_1, DCONST_2, LD1, LD2}"
    and "sp vm = STACK_SIZE - 1"
  shows "step bld vm = Undefined (StackWriteOutOfBounds STACK_SIZE)"
proof -
  have "opcode = DCONST_M1 \<or> opcode = DCONST_0 \<or> opcode = DCONST_1 \<or>
      opcode = DCONST_2 \<or> opcode = LD1 \<or> opcode = LD2"
    using assms(2) by simp
  then show ?thesis
    using assms(1,3) NCODE_Inr [OF assms(1)]
    by (elim disjE; simp add: step_def and_then_def push_break_def PUSH_def STACK_SIZE_def
        opcode_defs Let_def)
qed

lemma step_pop_empty:
  assumes "NCODE vm = Inr (opcode, fetched)"
    and "opcode \<in> {ADD, MUL, SUB, DIV, NEG, ST1, ST2, PRINT}"
    and "sp vm = - 1"
  shows "step bld vm = Undefined (StackReadOutOfBounds (- 1))"
proof -
  have "opcode = ADD \<or> opcode = MUL \<or> opcode = SUB \<or> opcode = DIV \<or>
      opcode = NEG \<or> opcode = ST1 \<or> opcode = ST2 \<or> opcode = PRINT"
    using assms(2) by simp
  then show ?thesis
    using assms(1,3) NCODE_Inr [OF assms(1)]
    by (elim disjE; simp add: step_def and_then_def POP_def STACK_SIZE_def opcode_defs
        Let_def)
qed

text \<open>The push of \<open>DCONST\<close>, once the operand is read, and the second pop of an operator.\<close>

lemma step_DCONST_full:
  assumes "NCODE vm = Inr (DCONST, fetched)" "read_double bld fetched = Inr (v, vm2)"
    and "sp vm = STACK_SIZE - 1"
  shows "step bld vm = Undefined (StackWriteOutOfBounds STACK_SIZE)"
proof -
  have "sp vm2 = sp fetched"
    using assms(2) by (auto simp: read_double_def Let_def split: sum.splits if_splits)
  then have "sp vm2 = STACK_SIZE - 1"
    using assms(3) NCODE_Inr [OF assms(1)] by simp
  then show ?thesis
    using assms(1,2)
    by (simp add: step_def and_then_def push_break_def PUSH_def STACK_SIZE_def opcode_defs
        Let_def)
qed

lemma step_second_pop_empty:
  assumes "NCODE vm = Inr (opcode, fetched)"
    and "opcode \<in> {ADD, MUL, SUB, DIV}"
    and "sp vm = 0"
  shows "step bld vm = Undefined (StackReadOutOfBounds (- 1))"
proof -
  have "opcode = ADD \<or> opcode = MUL \<or> opcode = SUB \<or> opcode = DIV"
    using assms(2) by simp
  then show ?thesis
    using assms(1,3) NCODE_Inr [OF assms(1)]
    by (elim disjE; simp add: step_def and_then_def POP_def STACK_SIZE_def opcode_defs
        Let_def)
qed

text \<open>As long as the turns are defined, the stack pointer stays between -1 and 255.\<close>

lemma step_sp_bounds:
  assumes "- 1 \<le> sp vm" "sp vm < STACK_SIZE"
    and "step bld vm = Break vm' s \<or> step bld vm = Return status vm' s"
  shows "- 1 \<le> sp vm' \<and> sp vm' < STACK_SIZE"
  using assms
  by (auto simp: turn_defs NCODE_def STACK_SIZE_def split: if_splits sum.splits prod.splits)

text \<open>257 pushes in a row: the last one writes \<open>stack[256]\<close>.\<close>

lemma run_loop_pushes:
  assumes "code vm = replicate 257 DCONST_0" "pc vm = sp vm + 1" "- 1 \<le> sp vm" "sp vm \<le> 255"
  shows "run_loop bld vm out = Some (UndefinedBehaviour (StackWriteOutOfBounds 256))"
  using assms
proof (induction "nat (255 - sp vm)" arbitrary: vm out)
  case 0
  then have "sp vm = 255"
    by simp
  then have "turns 1 bld vm out = Undefined (StackWriteOutOfBounds 256)"
    using "0.prems" by (simp add: turns_1 vm_defs opcode_defs)
  then show ?case
    by (rule run_loop_Undefined)
next
  case (Suc n)
  let ?vm' = "vm\<lparr>pc := pc vm + 1, sp := sp vm + 1,
    stack := (stack vm)(sp vm + 1 := double_of_int 0)\<rparr>"
  have less: "sp vm < 255"
    using Suc.hyps(2) by linarith
  then have "turns 1 bld vm out = Break ?vm' out"
    using Suc.prems by (simp add: turns_1 vm_defs opcode_defs)
  then have "run_loop bld vm out = run_loop bld ?vm' out"
    by (rule run_loop_Break)
  moreover have "run_loop bld ?vm' out = Some (UndefinedBehaviour (StackWriteOutOfBounds 256))"
    using Suc.hyps(2) Suc.prems less by (intro Suc.hyps(1)) simp_all
  ultimately show ?case
    by simp
qed

text \<open>
  C5, as the claim states it, fails: the code has no check. A 257th push writes
  \<open>stack[256]\<close> and a pop from the empty stack reads \<open>stack[-1]\<close>; the run does not
  return a failure status, it is undefined.
\<close>

theorem stack_accesses_out_of_bounds:
  "run x86_64 (newVM (replicate 257 DCONST_0) zero_block) =
     Some (UndefinedBehaviour (StackWriteOutOfBounds 256)) \<and>
   run x86_64 (newVM [PRINT] zero_block) =
     Some (UndefinedBehaviour (StackReadOutOfBounds (- 1)))"
proof
  show "run x86_64 (newVM (replicate 257 DCONST_0) zero_block) =
      Some (UndefinedBehaviour (StackWriteOutOfBounds 256))"
    unfolding run_def by (rule run_loop_pushes) (simp_all add: newVM_def)
  have "turns 1 x86_64 (newVM [PRINT] zero_block) [] = Undefined (StackReadOutOfBounds (- 1))"
    by (simp add: turns_1 newVM_def vm_defs opcode_defs)
  then show "run x86_64 (newVM [PRINT] zero_block) =
      Some (UndefinedBehaviour (StackReadOutOfBounds (- 1)))"
    unfolding run_def by (rule run_loop_Undefined)
qed

text \<open>
  C5, amended. A push when the stack holds 256 values (\<open>sp = 255\<close>) writes
  \<open>stack[256]\<close>, and a pop when the stack is empty (\<open>sp = -1\<close>) reads \<open>stack[-1]\<close>:
  the macros check nothing, no error is reported, and the access outside the array is
  undefined. A turn that is defined keeps the stack pointer between -1 and 255. The
  same holds of the push of \<open>DCONST\<close>, once its operand is read, and of the second pop
  of \<open>ADD\<close>, \<open>MUL\<close>, \<open>SUB\<close> and \<open>DIV\<close> when the stack holds one value.
\<close>

theorem stack_bounds_unchecked:
  "(NCODE vm = Inr (opcode, fetched) \<and>
    opcode \<in> {DCONST_M1, DCONST_0, DCONST_1, DCONST_2, LD1, LD2} \<and>
    sp vm = STACK_SIZE - 1 \<longrightarrow>
      step bld vm = Undefined (StackWriteOutOfBounds STACK_SIZE)) \<and>
   (NCODE vmp = Inr (opp, fetchedp) \<and>
    opp \<in> {ADD, MUL, SUB, DIV, NEG, ST1, ST2, PRINT} \<and> sp vmp = - 1 \<longrightarrow>
      step bld vmp = Undefined (StackReadOutOfBounds (- 1))) \<and>
   (- 1 \<le> sp vmi \<and> sp vmi < STACK_SIZE \<and>
    (step bld vmi = Break vm' s \<or> step bld vmi = Return status vm' s) \<longrightarrow>
      - 1 \<le> sp vm' \<and> sp vm' < STACK_SIZE) \<and>
   (NCODE vmd = Inr (DCONST, fetchedd) \<and> read_double bld fetchedd = Inr (v, vmd2) \<and>
    sp vmd = STACK_SIZE - 1 \<longrightarrow>
      step bld vmd = Undefined (StackWriteOutOfBounds STACK_SIZE)) \<and>
   (NCODE vmq = Inr (opq, fetchedq) \<and> opq \<in> {ADD, MUL, SUB, DIV} \<and> sp vmq = 0 \<longrightarrow>
      step bld vmq = Undefined (StackReadOutOfBounds (- 1)))"
  using step_push_full [of vm opcode fetched bld] step_pop_empty [of vmp opp fetchedp bld]
    step_sp_bounds [of vmi bld vm' s status]
    step_DCONST_full [of vmd fetchedd bld v vmd2] step_second_pop_empty [of vmq opq fetchedq bld]
  by blast

theorem stack_bounds_unchecked_witness:
  "NCODE \<lparr>r1 = 0, r2 = 0, code = [DCONST_0], stack = zero_block, pc = 0, sp = 255\<rparr> =
     Inr (DCONST_0, \<lparr>r1 = 0, r2 = 0, code = [DCONST_0], stack = zero_block, pc = 1, sp = 255\<rparr>) \<and>
   step x86_64 \<lparr>r1 = 0, r2 = 0, code = [DCONST_0], stack = zero_block, pc = 0, sp = 255\<rparr> =
     Undefined (StackWriteOutOfBounds 256) \<and>
   NCODE \<lparr>r1 = 0, r2 = 0, code = [PRINT], stack = zero_block, pc = 0, sp = - 1\<rparr> =
     Inr (PRINT, \<lparr>r1 = 0, r2 = 0, code = [PRINT], stack = zero_block, pc = 1, sp = - 1\<rparr>) \<and>
   step x86_64 \<lparr>r1 = 0, r2 = 0, code = [PRINT], stack = zero_block, pc = 0, sp = - 1\<rparr> =
     Undefined (StackReadOutOfBounds (- 1)) \<and>
   step x86_64 \<lparr>r1 = 0, r2 = 0, code = [DCONST_0], stack = zero_block, pc = 0, sp = 254\<rparr> =
     Break \<lparr>r1 = 0, r2 = 0, code = [DCONST_0], stack = zero_block(255 := 0), pc = 1,
       sp = 255\<rparr> [] \<and>
   sp \<lparr>r1 = 0, r2 = 0, code = [DCONST_0], stack = zero_block(255 := 0), pc = 1, sp = 255\<rparr>
     < STACK_SIZE \<and>
   NCODE \<lparr>r1 = 0, r2 = 0, code = readmebytecode, stack = zero_block, pc = 0, sp = 255\<rparr> =
     Inr (DCONST,
       \<lparr>r1 = 0, r2 = 0, code = readmebytecode, stack = zero_block, pc = 1, sp = 255\<rparr>) \<and>
   read_double x86_64
       \<lparr>r1 = 0, r2 = 0, code = readmebytecode, stack = zero_block, pc = 1, sp = 255\<rparr> =
     Inr (0x4029147AE147AE14,
       \<lparr>r1 = 0, r2 = 0, code = readmebytecode, stack = zero_block, pc = 9, sp = 255\<rparr>) \<and>
   step x86_64
       \<lparr>r1 = 0, r2 = 0, code = readmebytecode, stack = zero_block, pc = 0, sp = 255\<rparr> =
     Undefined (StackWriteOutOfBounds 256) \<and>
   NCODE \<lparr>r1 = 0, r2 = 0, code = [SUB], stack = zero_block, pc = 0, sp = 0\<rparr> =
     Inr (SUB, \<lparr>r1 = 0, r2 = 0, code = [SUB], stack = zero_block, pc = 1, sp = 0\<rparr>) \<and>
   step x86_64 \<lparr>r1 = 0, r2 = 0, code = [SUB], stack = zero_block, pc = 0, sp = 0\<rparr> =
     Undefined (StackReadOutOfBounds (- 1))"
proof -
  let ?dc = "\<lparr>r1 = 0, r2 = 0, code = readmebytecode, stack = zero_block, pc = 0, sp = 255\<rparr>"
  let ?dcf = "\<lparr>r1 = 0, r2 = 0, code = readmebytecode, stack = zero_block, pc = 1, sp = 255\<rparr>"
  let ?dcr = "\<lparr>r1 = 0, r2 = 0, code = readmebytecode, stack = zero_block, pc = 9, sp = 255\<rparr>"
  let ?one = "\<lparr>r1 = 0, r2 = 0, code = [SUB], stack = zero_block, pc = 0, sp = 0\<rparr>"
  let ?onef = "\<lparr>r1 = 0, r2 = 0, code = [SUB], stack = zero_block, pc = 1, sp = 0\<rparr>"
  have fetch_dc: "NCODE ?dc = Inr (DCONST, ?dcf)"
    by (simp add: NCODE_def readmebytecode_def INT_MAX_def)
  have matched: "LITTLE_ENDIAN x86_64 = little_endian_host x86_64"
    by (simp add: x86_64_def host_build_simps)
  have operand: "read_double x86_64 ?dcf = Inr (0x4029147AE147AE14, ?dcr)"
    by (simp add: read_double_wire [OF matched] memcpy_code_def readmebytecode_def
        INT_MAX_def wire_12_54)
  have fetch_one: "NCODE ?one = Inr (SUB, ?onef)"
    by (simp add: NCODE_def INT_MAX_def)
  let ?full = "\<lparr>r1 = 0, r2 = 0, code = [DCONST_0], stack = zero_block, pc = 0, sp = 255\<rparr>"
  let ?fullf = "\<lparr>r1 = 0, r2 = 0, code = [DCONST_0], stack = zero_block, pc = 1, sp = 255\<rparr>"
  let ?empty = "\<lparr>r1 = 0, r2 = 0, code = [PRINT], stack = zero_block, pc = 0, sp = - 1\<rparr>"
  let ?emptyf = "\<lparr>r1 = 0, r2 = 0, code = [PRINT], stack = zero_block, pc = 1, sp = - 1\<rparr>"
  let ?room = "\<lparr>r1 = 0, r2 = 0, code = [DCONST_0], stack = zero_block, pc = 0, sp = 254\<rparr>"
  let ?after = "\<lparr>r1 = 0, r2 = 0, code = [DCONST_0], stack = zero_block(255 := 0), pc = 1,
    sp = 255\<rparr>"
  have fetch_full: "NCODE ?full = Inr (DCONST_0, ?fullf)"
    by (simp add: NCODE_def INT_MAX_def)
  have fetch_empty: "NCODE ?empty = Inr (PRINT, ?emptyf)"
    by (simp add: NCODE_def INT_MAX_def)
  have turn_room: "step x86_64 ?room = Break ?after []"
    by (simp add: vm_defs opcode_defs double_of_int_0)
  show ?thesis
    using stack_bounds_unchecked
      [of ?full DCONST_0 ?fullf x86_64 ?empty PRINT ?emptyf ?room ?after "[]" EXIT_SUCCESS
        ?dc ?dcf "0x4029147AE147AE14" ?dcr ?one SUB ?onef]
      fetch_full fetch_empty turn_room fetch_dc operand fetch_one
    by (simp add: STACK_SIZE_def)
qed

section \<open>The Fibonacci program\<close>















section \<open>Determinism\<close>


lemma alike_sym: "alike a b \<Longrightarrow> alike b a"
  by (simp add: alike_def)
























end
